theory Spec2Isabelle
  imports Complex_Main "HOL-Library.Sublist"
begin

section \<open>JavaScript strings, whitespace and numbers\<close>

text \<open>
  Strings are lists of 8-bit characters. The class \<open>\s\<close> of a JavaScript regular
  expression and the characters removed by \<open>String.prototype.trim\<close> are the same set;
  within the 8-bit range these are TAB, LF, VT, FF, CR, SPACE and NBSP.
\<close>

definition is_space :: "char \<Rightarrow> bool" where
  "is_space c = (c \<in> {CHR 0x09, CHR 0x0A, CHR 0x0B, CHR 0x0C, CHR 0x0D, CHR 0x20, CHR 0xA0})"

abbreviation non_space :: "char \<Rightarrow> bool" where
  "non_space \<equiv> (\<lambda>c. \<not> is_space c)"

text \<open>\<open>s.trim()\<close>\<close>

definition trim :: "string \<Rightarrow> string" where
  "trim s = rev (dropWhile is_space (rev (dropWhile is_space s)))"

text \<open>
  \<open>s.split(/\s+/)\<close>: the leftmost match of \<open>\s+\<close> is the maximal run that starts at the
  first whitespace character; the piece before it is emitted and splitting continues
  behind the run. When no match is left the rest is emitted, also when it is empty.
\<close>

function split_ws :: "string \<Rightarrow> string list" where
  "split_ws s =
     (case dropWhile non_space s of
        [] \<Rightarrow> [s]
      | c # rest \<Rightarrow> takeWhile non_space s # split_ws (dropWhile is_space rest))"
  by pat_completeness auto
termination
proof (relation "measure length")
  show "wf (measure (length :: string \<Rightarrow> nat))" by simp
next
  fix s :: string and c rest
  assume a: "dropWhile non_space s = c # rest"
  have "length (dropWhile is_space rest) \<le> length rest"
    by (rule length_dropWhile_le)
  also have "length rest < length (dropWhile non_space s)"
    by (simp add: a)
  also have "\<dots> \<le> length s"
    by (rule length_dropWhile_le)
  finally show "(dropWhile is_space rest, s) \<in> measure length" by simp
qed

declare split_ws.simps [simp del]

text \<open>\<open>xs.join(sep)\<close> for an array of strings\<close>

fun join :: "string \<Rightarrow> string list \<Rightarrow> string" where
  "join sep [] = []"
| "join sep [x] = x"
| "join sep (x # y # ys) = x @ sep @ join sep (y # ys)"

text \<open>\<open>Math.round\<close> on a finite number rounds to the nearest integer, ties towards
  \<open>+\<infinity>\<close>. Numbers are modelled as exact rationals: the rounding that IEEE double
  arithmetic applies after each operation is not part of the model.\<close>

definition Math_round :: "rat \<Rightarrow> int" where
  "Math_round x = \<lfloor>x + 1 / 2\<rfloor>"

text \<open>\<open>String(n)\<close> and \<open>n.toString()\<close> for an integer: decimal digits, a minus sign when
  negative.\<close>

definition digit_char :: "nat \<Rightarrow> char" where
  "digit_char d = char_of (48 + d)"

fun digits10 :: "nat \<Rightarrow> string" where
  "digits10 n = (if n < 10 then [digit_char n] else digits10 (n div 10) @ [digit_char (n mod 10)])"

declare digits10.simps [simp del]

definition toString :: "int \<Rightarrow> string" where
  "toString i = (if i < 0 then CHR ''-'' # digits10 (nat (- i)) else digits10 (nat i))"

text \<open>\<open>s.padStart(n, pad)\<close>: the pad string is repeated and cut to the missing length;
  a string that is long enough, or an empty pad, leaves \<open>s\<close> as it is.\<close>

definition padStart :: "string \<Rightarrow> nat \<Rightarrow> string \<Rightarrow> string" where
  "padStart s n pad =
     (if n \<le> length s \<or> pad = [] then s
      else take (n - length s) (concat (replicate (n - length s) pad)) @ s)"

text \<open>\<open>s.startsWith(p)\<close>\<close>

definition startsWith :: "string \<Rightarrow> string \<Rightarrow> bool" where
  "startsWith s p = prefix p s"

text \<open>\<open>xs.findIndex(P)\<close>: the first index whose element satisfies \<open>P\<close>, \<open>-1\<close> when
  there is none.\<close>

fun findIndex :: "('a \<Rightarrow> bool) \<Rightarrow> 'a list \<Rightarrow> int" where
  "findIndex P [] = - 1"
| "findIndex P (x # xs) =
     (if P x then 0 else (let i = findIndex P xs in if i < 0 then - 1 else i + 1))"

section \<open>Data model\<close>

datatype qc_status = Draft | QC_Pending | QC_Finalized | Downloaded

text \<open>Modelled from the spec: the enumeration \<open>MQMSeverity\<close> of the type declarations,
  which the specification gives as Minor, Major, Critical.\<close>

datatype MQMSeverity = Minor | Major | Critical

text \<open>The remaining enumerations of the type declarations (\<open>MQMType\<close>,
  \<open>TranslationDocType\<close>, \<open>FunctionalGroup\<close>) are carried as strings, a member
  standing as its name.\<close>

type_synonym MQMType = string
type_synonym TranslationDocType = string

record CorrectionRationale =
  originalText :: string
  updatedText :: string
  rationale :: string
  r_timestamp :: nat
  pageIndex :: nat
  wordIndex :: nat
  r_mqmSeverity :: MQMSeverity
  r_mqmType :: MQMType

text \<open>A stored \<open>TranslationLog\<close>. The fields \<open>rationales\<close>, \<open>mqmErrorScore\<close> and
  \<open>qualityScore\<close> may be absent (\<open>undefined\<close>); a \<open>qualityScore\<close> of \<open>None\<close>
  inside \<open>Some\<close> stands for \<open>NaN\<close>.\<close>

record TranslationLog =
  log_id :: string
  log_trackingId :: string
  log_functionalGroup :: string
  log_projectNumber :: string
  log_docType :: TranslationDocType
  log_timestamp :: nat
  log_sourceLanguage :: string
  log_targetLanguage :: string
  log_wordCount :: nat
  log_charCount :: nat
  log_pageCount :: nat
  log_mode :: string
  log_provider :: string
  log_status :: qc_status
  log_qcTimeSpentSeconds :: nat
  log_workflowTimeCodes :: "(string \<times> nat) list"
  log_estimatedCost :: rat
  log_rationales :: "CorrectionRationale list option"
  log_mqmErrorScore :: "nat option"
  log_qualityScore :: "int option option"

text \<open>
  The component state of \<open>TranslationTool\<close> together with the outside world it
  touches: \<open>storage\<close> is the parsed value of the local-storage key
  \<open>aide_translation_metrics\<close> (\<open>None\<close> when the key is absent), \<open>alerts\<close> the
  messages shown by \<open>alert\<close>, \<open>gatewayCalls\<close> the prompts that \<open>translateDocument\<close>
  has sent to the remote model, \<open>synthSpeaking\<close> and \<open>synthPaused\<close> the state of
  \<open>window.speechSynthesis\<close>. The stored value is a well-formed array of logs, and
  reading and writing it does not fail.
\<close>

record session =
  projectNumber :: string
  currentTrackingId :: string
  currentLogId :: string
  sourceLanguage :: string
  targetLanguage :: string
  documentType :: TranslationDocType
  initiateTranslation :: bool
  sourcePages :: "string list"
  editedPages :: "string list"
  currentPage :: int
  wordCount :: nat
  tokenCount :: int
  estimatedCost :: rat
  isReviewMode :: bool
  qcStatus :: qc_status
  qcSeconds :: nat
  rationales :: "CorrectionRationale list"
  isLargeScreen :: bool
  isWordModalOpen :: bool
  selectedWordData :: "(string \<times> nat) option"
  alternatives :: "string list"
  isFetchingAlts :: bool
  selectedAlt :: string
  mqmSeverity :: MQMSeverity
  mqmType :: MQMType
  rationaleText :: string
  isReading :: bool
  isPaused :: bool
  highlightedWordIndex :: "nat option"
  isLoading :: bool
  progress :: string
  storage :: "TranslationLog list option"
  alerts :: "string list"
  gatewayCalls :: "string list"
  synthSpeaking :: bool
  synthPaused :: bool

section \<open>Tracking ids and metrics\<close>

text \<open>\<open>generateTrackingId\<close>, with the stored collection and the year of the clock as
  arguments.\<close>

definition generateTrackingId :: "TranslationLog list option \<Rightarrow> int \<Rightarrow> string" where
  "generateTrackingId existingLogsStr currentYear =
     (let existingLogs = (case existingLogsStr of Some logs \<Rightarrow> logs | None \<Rightarrow> []);
          yearLogs = filter (\<lambda>l. startsWith (log_trackingId l) (toString currentYear)) existingLogs
      in toString currentYear @ ''-'' @ padStart (toString (int (length yearLogs + 1))) 3 ''0'')"

text \<open>The two constants of the cost estimate, the decimal literals read exactly.\<close>

definition TOKEN_FACTOR :: rat where
  "TOKEN_FACTOR = 135 / 100"

definition COST_PER_1M_TOKENS :: rat where
  "COST_PER_1M_TOKENS = 75 / 100"

definition calculateMetrics :: "string list \<Rightarrow> session \<Rightarrow> session" where
  "calculateMetrics pages s =
     (let text = join '' '' pages;
          words = length (filter (\<lambda>w. length w > 0) (split_ws text));
          tokens = Math_round (of_nat words * TOKEN_FACTOR);
          cost = (of_int tokens / 1000000) * COST_PER_1M_TOKENS
      in s\<lparr>wordCount := words, tokenCount := tokens, estimatedCost := cost\<rparr>)"

section \<open>Arrays and exceptions\<close>

datatype js_error = TypeError | SyntaxError | GatewayError

text \<open>\<open>xs[i]\<close> read: \<open>undefined\<close> outside the array.\<close>

definition array_get :: "'a list \<Rightarrow> int \<Rightarrow> 'a option" where
  "array_get xs i = (if 0 \<le> i \<and> i < int (length xs) then Some (xs ! nat i) else None)"

text \<open>\<open>words[i] = v\<close> on an array of strings: an index behind the end extends the
  array, and the holes in between are joined as empty strings by \<open>join\<close>.\<close>

definition array_set :: "string list \<Rightarrow> nat \<Rightarrow> string \<Rightarrow> string list" where
  "array_set xs i v =
     (if i < length xs then xs[i := v] else xs @ replicate (i - length xs) [] @ [v])"

section \<open>Speech playback\<close>

definition handleStartReading :: "session \<Rightarrow> session \<Rightarrow> session" where
  \<comment> \<open>the first argument is the render whose \<open>editedPages\<close> and \<open>currentPage\<close> the
      handler closes over\<close>
  "handleStartReading c s =
     (case array_get (editedPages c) (currentPage c) of
        None \<Rightarrow> s
      | Some text \<Rightarrow>
          if text = [] then s
          else s\<lparr>synthSpeaking := True, synthPaused := False, isReading := True, isPaused := False\<rparr>)"

definition handlePauseReading :: "session \<Rightarrow> session" where
  "handlePauseReading s =
     (if synthSpeaking s \<and> \<not> synthPaused s then s\<lparr>synthPaused := True, isPaused := True\<rparr> else s)"

definition handleResumeReading :: "session \<Rightarrow> session \<Rightarrow> session" where
  "handleResumeReading c s =
     (if synthPaused s then s\<lparr>synthPaused := False, isPaused := False\<rparr>
      else if \<not> isReading c then handleStartReading c s
      else s)"

definition handleStopReading :: "session \<Rightarrow> session" where
  "handleStopReading s =
     s\<lparr>synthSpeaking := False, synthPaused := False, isReading := False, isPaused := False,
       highlightedWordIndex := None\<rparr>"

section \<open>The persisted log\<close>

definition updatePersistentStatus :: "qc_status \<Rightarrow> session \<Rightarrow> session" where
  "updatePersistentStatus newStatus s =
     (case storage s of
        None \<Rightarrow> s
      | Some metrics \<Rightarrow>
          (let idx = findIndex (\<lambda>m. log_id m = currentLogId s) metrics
           in if idx \<ge> 0
              then s\<lparr>storage := Some (metrics[nat idx := (metrics ! nat idx)\<lparr>log_status := newStatus\<rparr>])\<rparr>
              else s))"

section \<open>Recording an intervention\<close>

text \<open>The \<open>reduce\<close> of \<open>confirmIntervention\<close> over the rationales of the log.\<close>

definition weights_of :: "CorrectionRationale list \<Rightarrow> nat" where
  "weights_of rs =
     foldl (\<lambda>acc curr.
        if r_mqmSeverity curr = Minor then acc + 1
        else if r_mqmSeverity curr = Major then acc + 5
        else acc + 10) 0 rs"

text \<open>
  \<open>Math.max(0, Math.round(100 * (1 - weights / wordCount)))\<close> for non-negative integers.
  With \<open>wordCount = 0\<close> the quotient is \<open>+\<infinity>\<close> for positive \<open>weights\<close>, so the rounded
  value is \<open>-\<infinity>\<close> and the maximum is \<open>0\<close>; \<open>0 / 0\<close> is \<open>NaN\<close> (\<open>None\<close>), which
  \<open>Math.max\<close> returns.
\<close>

definition qualityScoreOf :: "nat \<Rightarrow> nat \<Rightarrow> int option" where
  "qualityScoreOf weights wc =
     (if wc = 0 then (if weights = 0 then None else Some 0)
      else Some (max 0 (Math_round (100 * (1 - of_nat weights / of_nat wc)))))"

definition confirmIntervention :: "nat \<Rightarrow> session \<Rightarrow> js_error + session" where
  "confirmIntervention now s =
     (case selectedWordData s of
        None \<Rightarrow> Inr s
      | Some (word, index) \<Rightarrow>
          if selectedAlt s = [] \<or> rationaleText s = [] then Inr s
          else
            (case array_get (editedPages s) (currentPage s) of
               None \<Rightarrow> Inl TypeError
             | Some page \<Rightarrow>
                 (let words = array_set (split_ws page) index (selectedAlt s);
                      newPageText = join '' '' words;
                      newPages = (editedPages s)[nat (currentPage s) := newPageText];
                      rationale = \<lparr>originalText = word, updatedText = selectedAlt s,
                        rationale = rationaleText s, r_timestamp = now,
                        pageIndex = nat (currentPage s), wordIndex = index,
                        r_mqmSeverity = mqmSeverity s, r_mqmType = mqmType s\<rparr>;
                      s1 = s\<lparr>editedPages := newPages, rationales := rationales s @ [rationale]\<rparr>;
                      s2 = (case storage s1 of
                              None \<Rightarrow> s1
                            | Some metrics \<Rightarrow>
                                (let idx = findIndex (\<lambda>m. log_id m = currentLogId s) metrics
                                 in if idx \<ge> 0
                                    then (let log = metrics ! nat idx;
                                              rs = (case log_rationales log of None \<Rightarrow> [] | Some r \<Rightarrow> r)
                                                     @ [rationale];
                                              weights = weights_of rs;
                                              log' = log\<lparr>log_rationales := Some rs,
                                                log_mqmErrorScore := Some weights,
                                                log_qualityScore :=
                                                  Some (qualityScoreOf weights (log_wordCount log))\<rparr>
                                          in s1\<lparr>storage := Some (metrics[nat idx := log'])\<rparr>)
                                    else s1));
                      s3 = s2\<lparr>isWordModalOpen := False, selectedAlt := [], rationaleText := []\<rparr>
                  in Inr (handleResumeReading s s3))))"

section \<open>The remote gateway and translation\<close>

text \<open>
  One call of \<open>ai.models.generateContent\<close> either raises or returns a response whose
  \<open>text\<close> may be \<open>undefined\<close>. The remote model is a parameter: its answer may depend
  on every prompt it was sent before (\<open>gatewayCalls\<close>) and on the prompt of this call.
\<close>

datatype gw_response = Fails | Response "string option"

type_synonym gateway = "string list \<Rightarrow> string \<Rightarrow> gw_response"

datatype content = Single string | Many "string list"

definition translate_prompt :: "string \<Rightarrow> string \<Rightarrow> string \<Rightarrow> string" where
  "translate_prompt targetLang mode page =
     ''Translate the following clinical text to '' @ targetLang @ '' with '' @ mode
       @ '' focus. Preserve terminology accuracy. '' @ [CHR 0x0A, CHR 0x0A] @ page"

text \<open>The \<open>for\<close> loop of \<open>translateDocument\<close>: \<open>i\<close> counts the segments done, the
  list argument holds the segments still to do.\<close>

fun translate_loop ::
  "gateway \<Rightarrow> string \<Rightarrow> string \<Rightarrow> nat \<Rightarrow> nat \<Rightarrow> string list \<Rightarrow> string list \<Rightarrow> session
     \<Rightarrow> (js_error + string list) \<times> session" where
  "translate_loop gw targetLang mode n i [] results s = (Inr results, s)"
| "translate_loop gw targetLang mode n i (page # rest) results s =
     (let s1 = s\<lparr>progress := ''Translating segment '' @ toString (int (i + 1)) @ '' of ''
                    @ toString (int n) @ ''...''\<rparr>;
          prompt = translate_prompt targetLang mode page;
          s2 = s1\<lparr>gatewayCalls := gatewayCalls s1 @ [prompt]\<rparr>
      in case gw (gatewayCalls s1) prompt of
           Fails \<Rightarrow> (Inl GatewayError, s2)
         | Response t \<Rightarrow>
             translate_loop gw targetLang mode n (i + 1) rest
               (results @ [case t of None \<Rightarrow> [] | Some x \<Rightarrow> x]) s2)"

definition translateDocument ::
  "gateway \<Rightarrow> content \<Rightarrow> string \<Rightarrow> string \<Rightarrow> session \<Rightarrow> (js_error + content) \<times> session" where
  "translateDocument gw content targetLang mode s =
     (let input = (case content of Many xs \<Rightarrow> xs | Single x \<Rightarrow> [x])
      in case translate_loop gw targetLang mode (length input) 0 input [] s of
           (Inl e, s') \<Rightarrow> (Inl e, s')
         | (Inr results, s') \<Rightarrow>
             (case content of
                Many xs \<Rightarrow> (Inr (Many results), s')
              | Single x \<Rightarrow> (Inr (Single (results ! 0)), s')))"

text \<open>\<open>handleTranslate\<close>; the two readings of the clock are arguments.\<close>

definition handleTranslate :: "gateway \<Rightarrow> nat \<Rightarrow> nat \<Rightarrow> session \<Rightarrow> session" where
  "handleTranslate gw now now' s =
     (if length (sourcePages s) = 0 then s
      else
        (let s1 = s\<lparr>isLoading := True, progress := ''Mapping Intelligence Pipeline...''\<rparr>;
             s4 = (case translateDocument gw (Many (sourcePages s)) (targetLanguage s) ''General'' s1 of
                     (Inr result, s2) \<Rightarrow>
                       (let pages = (case result of Many xs \<Rightarrow> xs | Single x \<Rightarrow> [x]);
                            s3 = s2\<lparr>editedPages := pages, qcStatus := QC_Pending\<rparr>;
                            log = \<lparr>log_id = currentLogId s,
                              log_trackingId = currentTrackingId s,
                              log_functionalGroup = ''ClinicalOperations'',
                              log_projectNumber = projectNumber s,
                              log_docType = documentType s,
                              log_timestamp = now,
                              log_sourceLanguage = sourceLanguage s,
                              log_targetLanguage = targetLanguage s,
                              log_wordCount = wordCount s,
                              log_charCount = length (join [] (sourcePages s)),
                              log_pageCount = length pages,
                              log_mode = ''General'',
                              log_provider = ''Gemini-3-Flash'',
                              log_status = QC_Pending,
                              log_qcTimeSpentSeconds = 0,
                              log_workflowTimeCodes = [(''START'', now')],
                              log_estimatedCost = estimatedCost s,
                              log_rationales = Some [],
                              log_mqmErrorScore = None,
                              log_qualityScore = None\<rparr>;
                            metrics = (case storage s3 of None \<Rightarrow> [] | Some m \<Rightarrow> m)
                        in s3\<lparr>storage := Some (metrics @ [log])\<rparr>)
                   | (Inl e, s2) \<Rightarrow>
                       s2\<lparr>alerts := alerts s2 @ [''Pipeline Failure''], initiateTranslation := False\<rparr>)
         in s4\<lparr>isLoading := False, progress := []\<rparr>))"

section \<open>Upload, finalize and download\<close>

text \<open>What reading the chosen file gives: no file, a failure of the parser, or the page
  texts.\<close>

datatype upload = NoFile | ParseFailure | Parsed "string list"

text \<open>\<open>handleFileUpload\<close>; the year and the millisecond clock are arguments, and so is
  the language that \<open>detectLanguage\<close> settles on.\<close>

definition handleFileUpload :: "upload \<Rightarrow> int \<Rightarrow> nat \<Rightarrow> string \<Rightarrow> session \<Rightarrow> session" where
  "handleFileUpload file year now lang s =
     (case file of
        NoFile \<Rightarrow> s
      | ParseFailure \<Rightarrow> s\<lparr>alerts := alerts s @ [''Failed to process document.'']\<rparr>
      | Parsed pages \<Rightarrow>
          (calculateMetrics pages (s\<lparr>sourcePages := pages\<rparr>))
            \<lparr>currentTrackingId := generateTrackingId (storage s) year,
             currentLogId := ''trans-'' @ toString (int now),
             sourceLanguage := lang,
             initiateTranslation := False,
             editedPages := [],
             qcStatus := Draft\<rparr>)"

definition handleDownloadWord :: "session \<Rightarrow> session" where
  "handleDownloadWord s = updatePersistentStatus Downloaded (s\<lparr>qcStatus := Downloaded\<rparr>)"

text \<open>\<open>handleDownloadPDF\<close>; the argument tells whether \<open>window.open\<close> returned a
  window.\<close>

definition handleDownloadPDF :: "bool \<Rightarrow> session \<Rightarrow> session" where
  "handleDownloadPDF printWindow s =
     (if \<not> printWindow then s
      else updatePersistentStatus Downloaded (s\<lparr>qcStatus := Downloaded\<rparr>))"

text \<open>The click handler of the button \<open>Finalize Verification\<close>.\<close>

definition finalizeVerification :: "session \<Rightarrow> session" where
  "finalizeVerification s =
     handleStopReading ((updatePersistentStatus QC_Finalized (s\<lparr>qcStatus := QC_Finalized\<rparr>))
       \<lparr>isReviewMode := False\<rparr>)"

section \<open>The user interface as a transition system\<close>

text \<open>The words of the current page as the review pane renders them.\<close>

definition render_words :: "string \<Rightarrow> string list" where
  "render_words page = split_ws (trim page)"

text \<open>\<open>handleWordClick\<close>; the last argument is what \<open>getAlternateSuggestions\<close>
  returned, \<open>None\<close> when it raised.\<close>

definition handleWordClick :: "string \<Rightarrow> nat \<Rightarrow> string list option \<Rightarrow> session \<Rightarrow> session" where
  "handleWordClick word index alts s =
     (let s1 = handlePauseReading s;
          s2 = s1\<lparr>selectedWordData := Some (filter (\<lambda>c. c \<notin> set ''.,!?;:'') word, index),
                 isWordModalOpen := True, isFetchingAlts := True\<rparr>;
          s3 = (case alts of Some a \<Rightarrow> s2\<lparr>alternatives := a\<rparr> | None \<Rightarrow> s2)
      in s3\<lparr>isFetchingAlts := False\<rparr>)"

text \<open>
  The events of the component, each with what the outside world contributes to it (the
  parsed file, the clock, the remote model, the print window). A handler runs to its end
  before the next event: the waiting inside \<open>handleFileUpload\<close>, \<open>handleTranslate\<close> and
  \<open>handleWordClick\<close> is not interleaved with other events. \<open>Highlight\<close> stands for the
  word-boundary callback of the speech engine, which only writes
  \<open>highlightedWordIndex\<close>.
\<close>

datatype event =
    Upload upload int nat string
  | Initiate gateway nat nat
  | ToggleLargeScreen
  | ToggleReview
  | Finalize
  | DownloadWord
  | DownloadPDF bool
  | PrevPage
  | NextPage
  | PlayPause
  | StopReading
  | UtteranceEnd
  | Highlight "nat option"
  | Tick
  | WordClick nat "string list option"
  | SelectAlt nat
  | SetRationaleText string
  | SetSeverity MQMSeverity
  | SetType MQMType
  | Confirm nat
  | CloseModal
  | SetProjectNumber string
  | SetDocumentType TranslationDocType
  | SetTargetLanguage string

text \<open>When the control that raises an event is rendered and enabled. The header panel
  (upload, initiate, downloads, project fields) and the source pane with the page
  buttons are hidden in the large-screen view.\<close>

fun enabled :: "event \<Rightarrow> session \<Rightarrow> bool" where
  "enabled (Upload f y t l) s = (\<not> isLargeScreen s)"
| "enabled (Initiate gw t t') s = (\<not> isLargeScreen s \<and> \<not> initiateTranslation s)"
| "enabled ToggleLargeScreen s = True"
| "enabled ToggleReview s = (length (editedPages s) \<noteq> 0)"
| "enabled Finalize s =
     (isReviewMode s \<and> qcStatus s \<noteq> QC_Finalized \<and> qcStatus s \<noteq> Downloaded)"
| "enabled DownloadWord s =
     (\<not> isLargeScreen s \<and> (qcStatus s = QC_Finalized \<or> qcStatus s = Downloaded))"
| "enabled (DownloadPDF w) s =
     (\<not> isLargeScreen s \<and> (qcStatus s = QC_Finalized \<or> qcStatus s = Downloaded))"
| "enabled PrevPage s = (\<not> isLargeScreen s)"
| "enabled NextPage s = (\<not> isLargeScreen s)"
| "enabled PlayPause s = (length (editedPages s) > 0)"
| "enabled StopReading s = (length (editedPages s) > 0)"
| "enabled UtteranceEnd s = synthSpeaking s"
| "enabled (Highlight h) s = synthSpeaking s"
| "enabled Tick s =
     (isReviewMode s \<and> qcStatus s = QC_Pending \<and> \<not> isPaused s \<and> \<not> isWordModalOpen s)"
| "enabled (WordClick i alts) s =
     (\<not> isLoading s \<and> isReviewMode s \<and>
      (case array_get (editedPages s) (currentPage s) of
         None \<Rightarrow> False
       | Some page \<Rightarrow> i < length (render_words page)))"
| "enabled (SelectAlt k) s =
     (isWordModalOpen s \<and> \<not> isFetchingAlts s \<and> k < length (alternatives s))"
| "enabled (SetRationaleText t) s = isWordModalOpen s"
| "enabled (SetSeverity v) s = isWordModalOpen s"
| "enabled (SetType v) s = isWordModalOpen s"
| "enabled (Confirm t) s = (isWordModalOpen s \<and> selectedAlt s \<noteq> [] \<and> rationaleText s \<noteq> [])"
| "enabled CloseModal s = isWordModalOpen s"
| "enabled (SetProjectNumber v) s = (\<not> isLargeScreen s)"
| "enabled (SetDocumentType v) s = (\<not> isLargeScreen s)"
| "enabled (SetTargetLanguage v) s = (\<not> isLargeScreen s)"

text \<open>The effect that starts the translation once the radio button is selected.\<close>

definition autoTranslate :: "gateway \<Rightarrow> nat \<Rightarrow> nat \<Rightarrow> session \<Rightarrow> session" where
  "autoTranslate gw now now' s =
     (if initiateTranslation s \<and> length (sourcePages s) > 0 \<and> \<not> isLoading s
         \<and> length (editedPages s) = 0
      then handleTranslate gw now now' s else s)"

text \<open>What the handler of an event does. An exception that leaves a handler leaves the
  state as it was.\<close>

fun handle :: "event \<Rightarrow> session \<Rightarrow> session" where
  "handle (Upload f y t l) s = handleFileUpload f y t l s"
| "handle (Initiate gw t t') s = autoTranslate gw t t' (s\<lparr>initiateTranslation := True\<rparr>)"
| "handle ToggleLargeScreen s = s\<lparr>isLargeScreen := \<not> isLargeScreen s\<rparr>"
| "handle ToggleReview s = s\<lparr>isReviewMode := \<not> isReviewMode s\<rparr>"
| "handle Finalize s = finalizeVerification s"
| "handle DownloadWord s = handleDownloadWord s"
| "handle (DownloadPDF w) s = handleDownloadPDF w s"
| "handle PrevPage s = s\<lparr>currentPage := max 0 (currentPage s - 1)\<rparr>"
| "handle NextPage s = s\<lparr>currentPage := min (int (length (sourcePages s)) - 1) (currentPage s + 1)\<rparr>"
| "handle PlayPause s =
     (if isReading s \<and> \<not> isPaused s then handlePauseReading s else handleResumeReading s s)"
| "handle StopReading s = handleStopReading s"
| "handle UtteranceEnd s =
     s\<lparr>synthSpeaking := False, synthPaused := False, isReading := False, isPaused := False,
       highlightedWordIndex := None\<rparr>"
| "handle (Highlight h) s = s\<lparr>highlightedWordIndex := h\<rparr>"
| "handle Tick s = s\<lparr>qcSeconds := qcSeconds s + 1\<rparr>"
| "handle (WordClick i alts) s =
     (case array_get (editedPages s) (currentPage s) of
        None \<Rightarrow> s
      | Some page \<Rightarrow> handleWordClick (render_words page ! i) i alts s)"
| "handle (SelectAlt k) s = s\<lparr>selectedAlt := alternatives s ! k\<rparr>"
| "handle (SetRationaleText t) s = s\<lparr>rationaleText := t\<rparr>"
| "handle (SetSeverity v) s = s\<lparr>mqmSeverity := v\<rparr>"
| "handle (SetType v) s = s\<lparr>mqmType := v\<rparr>"
| "handle (Confirm t) s = (case confirmIntervention t s of Inl e \<Rightarrow> s | Inr s' \<Rightarrow> s')"
| "handle CloseModal s = handleResumeReading s (s\<lparr>isWordModalOpen := False\<rparr>)"
| "handle (SetProjectNumber v) s = s\<lparr>projectNumber := v\<rparr>"
| "handle (SetDocumentType v) s = s\<lparr>documentType := v\<rparr>"
| "handle (SetTargetLanguage v) s = s\<lparr>targetLanguage := v\<rparr>"

definition step :: "event \<Rightarrow> session \<Rightarrow> session" where
  "step e s = (if enabled e s then handle e s else s)"

definition run :: "event list \<Rightarrow> session \<Rightarrow> session" where
  "run es s = foldl (\<lambda>s e. step e s) s es"

text \<open>The state of a freshly mounted component over a given content of the store.\<close>

definition initial :: "TranslationLog list option \<Rightarrow> session" where
  "initial st =
     \<lparr>projectNumber = ''AZ-PH1-2025'', currentTrackingId = [], currentLogId = [],
      sourceLanguage = ''Detecting...'', targetLanguage = ''Spanish'',
      documentType = ''EssentialDocuments'', initiateTranslation = False,
      sourcePages = [], editedPages = [], currentPage = 0,
      wordCount = 0, tokenCount = 0, estimatedCost = 0,
      isReviewMode = False, qcStatus = Draft, qcSeconds = 0, rationales = [],
      isLargeScreen = False, isWordModalOpen = False, selectedWordData = None,
      alternatives = [], isFetchingAlts = False, selectedAlt = [],
      mqmSeverity = Minor, mqmType = ''Terminology'', rationaleText = [],
      isReading = False, isPaused = False, highlightedWordIndex = None,
      isLoading = False, progress = [], storage = st, alerts = [], gatewayCalls = [],
      synthSpeaking = False, synthPaused = False\<rparr>"

inductive reachable :: "session \<Rightarrow> bool" where
  init: "reachable (initial st)"
| step: "reachable s \<Longrightarrow> enabled e s \<Longrightarrow> reachable (handle e s)"


section \<open>Extracting JSON from a model response\<close>

datatype json =
    JNull
  | JBool bool
  | JNumber rat
  | JString string
  | JArray "json list"
  | JObject "(string \<times> json) list"

text \<open>\<open>JSON.parse\<close> belongs to the platform and is a parameter: it returns a value or
  raises a \<open>SyntaxError\<close>.\<close>

type_synonym json_parser = "string \<Rightarrow> js_error + json"

text \<open>\<open>s.indexOf(c)\<close> and \<open>s.lastIndexOf(c)\<close> for a single character, \<open>-1\<close> when it
  does not occur.\<close>

definition indexOf :: "string \<Rightarrow> char \<Rightarrow> int" where
  "indexOf s c = findIndex (\<lambda>x. x = c) s"

definition lastIndexOf :: "string \<Rightarrow> char \<Rightarrow> int" where
  "lastIndexOf s c =
     (let i = findIndex (\<lambda>x. x = c) (rev s) in if i < 0 then - 1 else int (length s) - 1 - i)"

text \<open>\<open>s.substring(a, b)\<close>: both ends are clamped to the string and swapped when out of
  order.\<close>

definition substring :: "string \<Rightarrow> int \<Rightarrow> int \<Rightarrow> string" where
  "substring s a b =
     (let n = int (length s);
          a' = max 0 (min a n);
          b' = max 0 (min b n);
          lo = min a' b';
          hi = max a' b'
      in take (nat (hi - lo)) (drop (nat lo) s))"

text \<open>\<open>s.replace(/^p/g, '')\<close> and \<open>s.replace(/p$/g, '')\<close> for a literal \<open>p\<close>: without
  the multiline flag the anchors match only at the two ends of the string.\<close>

definition replace_at_start :: "string \<Rightarrow> string \<Rightarrow> string" where
  "replace_at_start p s = (if prefix p s then drop (length p) s else s)"

definition replace_at_end :: "string \<Rightarrow> string \<Rightarrow> string" where
  "replace_at_end p s = (if suffix p s then take (length s - length p) s else s)"

text \<open>\<open>try { return JSON.parse(c); } catch (e) {}\<close>: the value when parsing succeeds,
  nothing when it raises.\<close>

definition try_parse :: "json_parser \<Rightarrow> string \<Rightarrow> json option" where
  "try_parse parse c = (case parse c of Inr v \<Rightarrow> Some v | Inl e \<Rightarrow> None)"

definition cleanText_of :: "string \<Rightarrow> string" where
  "cleanText_of text =
     replace_at_end ''```'' (replace_at_start ''```'' (replace_at_start ''```json'' (trim text)))"

text \<open>\<open>extractJson\<close>; the argument is \<open>None\<close> for \<open>undefined\<close>.\<close>

definition extractJson :: "json_parser \<Rightarrow> string option \<Rightarrow> js_error + json" where
  "extractJson parse text =
     (case text of
        None \<Rightarrow> Inr JNull
      | Some t \<Rightarrow>
          if t = [] then Inr JNull
          else
            (let cleanText = cleanText_of t;
                 firstBracket = indexOf cleanText CHR ''['';
                 lastBracket = lastIndexOf cleanText CHR '']'';
                 r1 = (if firstBracket \<noteq> - 1 \<and> lastBracket \<noteq> - 1 \<and> lastBracket > firstBracket
                       then try_parse parse (substring cleanText firstBracket (lastBracket + 1))
                       else None)
             in case r1 of
                  Some v \<Rightarrow> Inr v
                | None \<Rightarrow>
                    (let firstCurly = indexOf cleanText CHR ''{'';
                         lastCurly = lastIndexOf cleanText CHR ''}'';
                         r2 = (if firstCurly \<noteq> - 1 \<and> lastCurly \<noteq> - 1 \<and> lastCurly > firstCurly
                               then try_parse parse (substring cleanText firstCurly (lastCurly + 1))
                               else None)
                     in case r2 of
                          Some v \<Rightarrow> Inr v
                        | None \<Rightarrow>
                            (case parse cleanText of
                               Inr v \<Rightarrow> Inr v
                             | Inl e \<Rightarrow> Inr JNull))))"

section \<open>Notions of the specification, for comparison with the code\<close>


text \<open>The stored logs whose tracking id starts with the year.\<close>

definition year_count :: "TranslationLog list option \<Rightarrow> int \<Rightarrow> nat" where
  "year_count st y =
     length (filter (\<lambda>l. prefix (toString y) (log_trackingId l))
               (case st of None \<Rightarrow> [] | Some logs \<Rightarrow> logs))"

text \<open>A number written in decimal with zeros in front up to three digits.\<close>

definition zero_pad3 :: "nat \<Rightarrow> string" where
  "zero_pad3 n = replicate (3 - length (digits10 n)) CHR ''0'' @ digits10 n"

text \<open>The candidates that the extraction tries, in order: from the first \<open>[\<close> to the
  last \<open>]\<close>, from the first \<open>{\<close> to the last \<open>}\<close>, then the whole cleaned text.\<close>

definition between :: "char \<Rightarrow> char \<Rightarrow> string \<Rightarrow> string list" where
  "between l r s =
     (if l \<in> set s \<and> r \<in> set s
         \<and> length (takeWhile (\<lambda>x. x \<noteq> l) s) < length s - 1 - length (takeWhile (\<lambda>x. x \<noteq> r) (rev s))
      then [drop (length (takeWhile (\<lambda>x. x \<noteq> l) s))
              (take (length s - length (takeWhile (\<lambda>x. x \<noteq> r) (rev s))) s)]
      else [])"

definition candidates :: "string \<Rightarrow> string list" where
  "candidates c = between CHR ''['' CHR '']'' c @ between CHR ''{'' CHR ''}'' c @ [c]"

fun first_success :: "json_parser \<Rightarrow> string list \<Rightarrow> json option" where
  "first_success parse [] = None"
| "first_success parse (c # cs) =
     (case parse c of Inr v \<Rightarrow> Some v | Inl e \<Rightarrow> first_success parse cs)"

section \<open>Notions used in the statements\<close>

text \<open>The stored log of the session: the first one whose id is the session's.\<close>

definition persisted_log :: "session \<Rightarrow> TranslationLog option" where
  "persisted_log s =
     (case storage s of
        None \<Rightarrow> None
      | Some metrics \<Rightarrow> List.find (\<lambda>m. log_id m = currentLogId s) metrics)"


text \<open>The answer to the call for page \<open>k\<close> when the pages before it have been sent in
  order after the earlier \<open>calls\<close>, and the text taken from an answer
  (\<open>response.text || ''\<close>).\<close>

definition nth_response :: "gateway \<Rightarrow> string \<Rightarrow> string \<Rightarrow> string list \<Rightarrow> string list \<Rightarrow> nat \<Rightarrow> gw_response" where
  "nth_response gw targetLang mode calls pages k =
     gw (calls @ map (translate_prompt targetLang mode) (take k pages))
        (translate_prompt targetLang mode (pages ! k))"


text \<open>Token lists that splitting can produce: at least one token, no whitespace inside
  a token, and no empty token except at the two ends.\<close>

definition no_space :: "string \<Rightarrow> bool" where
  "no_space w = list_all non_space w"

fun wf_tokens :: "string list \<Rightarrow> bool" where
  "wf_tokens [] = False"
| "wf_tokens [w] = no_space w"
| "wf_tokens (w # v # vs) = (no_space w \<and> (v \<noteq> [] \<or> vs = []) \<and> wf_tokens (v # vs))"

text \<open>The number of words of a text, counted in one pass: a word starts at every
  character that is not whitespace and does not follow such a character. The flag tells
  whether the character before was inside a word.\<close>

fun count_words :: "bool \<Rightarrow> string \<Rightarrow> nat" where
  "count_words inside [] = 0"
| "count_words inside (c # cs) =
     (if is_space c then count_words False cs
      else (if inside then 0 else 1) + count_words True cs)"

section \<open>Concrete sessions\<close>

definition demo_rationale :: "MQMSeverity \<Rightarrow> CorrectionRationale" where
  "demo_rationale sev =
     \<lparr>originalText = ''dosis'', updatedText = ''dose'', rationale = ''terminology'',
      r_timestamp = 1, pageIndex = 0, wordIndex = 0, r_mqmSeverity = sev,
      r_mqmType = ''Terminology''\<rparr>"

definition demo_log :: "string \<Rightarrow> string \<Rightarrow> nat \<Rightarrow> CorrectionRationale list \<Rightarrow> TranslationLog" where
  "demo_log i tid wc rs =
     \<lparr>log_id = i, log_trackingId = tid, log_functionalGroup = ''ClinicalOperations'',
      log_projectNumber = ''AZ-PH1-2025'', log_docType = ''EssentialDocuments'',
      log_timestamp = 0, log_sourceLanguage = ''English'', log_targetLanguage = ''Spanish'',
      log_wordCount = wc, log_charCount = 0, log_pageCount = 1, log_mode = ''General'',
      log_provider = ''Gemini-3-Flash'', log_status = QC_Pending, log_qcTimeSpentSeconds = 0,
      log_workflowTimeCodes = [(''START'', 0)], log_estimatedCost = 0,
      log_rationales = Some rs, log_mqmErrorScore = None, log_qualityScore = None\<rparr>"

definition demo_store :: "TranslationLog list" where
  "demo_store =
     [demo_log ''trans-1'' ''2025-001'' 1000 [demo_rationale Minor],
      demo_log ''trans-2'' ''2024-001'' 200 [],
      demo_log ''trans-3'' ''2025-002'' 0 []]"

text \<open>A session in review with the intervention dialog open on the second word of its
  only page.\<close>

definition demo_review :: session where
  "demo_review =
     (initial (Some demo_store))
       \<lparr>currentLogId := ''trans-1'', sourcePages := [''alpha beta''],
        editedPages := [''alfa  beta gama''], isReviewMode := True, qcStatus := QC_Pending,
        isWordModalOpen := True, selectedWordData := Some (''beta'', 1),
        selectedAlt := ''delta'', mqmSeverity := Major, rationaleText := ''glossary''\<rparr>"

text \<open>A remote model that answers every prompt with the same text, and one that
  fails on its second call.\<close>

definition gw_const :: gateway where
  "gw_const calls prompt = Response (Some ''hola mundo'')"

definition gw_fail_second :: gateway where
  "gw_fail_second calls prompt = (if length calls = 1 then Fails else Response (Some ''uno''))"

text \<open>A session with a two-page document loaded and not yet translated.\<close>

definition demo_draft :: session where
  "demo_draft =
     (initial (Some demo_store))
       \<lparr>currentTrackingId := ''2025-003'', currentLogId := ''trans-5'',
        sourcePages := [''hello world'', ''good day''], wordCount := 4, tokenCount := 5,
        initiateTranslation := True\<rparr>"

text \<open>A parser that knows one array and rejects every other text, and the fenced
  response of the specification's example.\<close>

definition demo_parse :: json_parser where
  "demo_parse c =
     (if c = ''[1,2,3]'' then Inr (JArray [JNumber 1, JNumber 2, JNumber 3]) else Inl SyntaxError)"

definition fenced_array :: string where
  "fenced_array = ''```json'' @ [CHR 0x0A] @ ''[1,2,3]'' @ [CHR 0x0A] @ ''```''"

text \<open>A run of the interface from a fresh component: a document is uploaded,
  translated and put under review; then a second document is uploaded.\<close>

definition demo_trace :: "event list" where
  "demo_trace =
     [Upload (Parsed [''hello world'']) 2025 5 ''English'',
      Initiate gw_const 10 11,
      ToggleReview]"

definition demo_reviewing :: session where
  "demo_reviewing = run demo_trace (initial None)"

text \<open>The reviewed session after Finalize.\<close>

definition demo_finalized :: session where
  "demo_finalized = step Finalize demo_reviewing"


section \<open>Verified properties\<close>

subsection \<open>Numbers and strings\<close>



lemma digit_char_0: "digit_char 0 = CHR ''0''"
  by code_simp

lemma digits10_small: "n < 10 \<Longrightarrow> digits10 n = [digit_char n]"
  by (subst digits10.simps) simp

lemma digits10_step: "\<not> n < 10 \<Longrightarrow> digits10 n = digits10 (n div 10) @ [digit_char (n mod 10)]"
  by (subst digits10.simps) simp

lemma toString_nat: "toString (int n) = digits10 n"
  by (simp add: toString_def)

lemma padStart_zero: "padStart d 3 ''0'' = replicate (3 - length d) CHR ''0'' @ d"
  by (simp add: padStart_def)

lemma zero_pad3_small:
  assumes "n < 1000"
  shows "zero_pad3 n = [digit_char (n div 100), digit_char (n div 10 mod 10), digit_char (n mod 10)]"
proof -
  consider "n < 10" | "10 \<le> n" "n < 100" | "100 \<le> n" by linarith
  then show ?thesis
  proof cases
    case 1
    then have "n div 100 = 0" "n div 10 = 0" by simp_all
    with 1 show ?thesis
      by (simp add: zero_pad3_def digits10_small digit_char_0 numeral_3_eq_3)
  next
    case 2
    then have a: "n div 100 = 0" "n div 10 < 10" "n div 10 mod 10 = n div 10" by simp_all
    from 2 have "digits10 n = [digit_char (n div 10), digit_char (n mod 10)]"
      by (simp add: digits10_step digits10_small a)
    with a show ?thesis
      by (simp add: zero_pad3_def digit_char_0)
  next
    case 3
    with assms have a: "\<not> n < 10" "\<not> n div 10 < 10" "n div 10 div 10 < 10" by simp_all
    have b: "n div 10 div 10 = n div 100" by (simp add: div_mult2_eq)
    from a have "digits10 n = [digit_char (n div 100), digit_char (n div 10 mod 10), digit_char (n mod 10)]"
      by (simp add: digits10_step digits10_small b)
    then show ?thesis
      by (simp add: zero_pad3_def)
  qed
qed

lemma generateTrackingId_eq:
  "generateTrackingId st y = toString y @ ''-'' @ zero_pad3 (year_count st y + 1)"
  by (simp add: generateTrackingId_def Let_def year_count_def zero_pad3_def startsWith_def
      padStart_zero toString_nat del: of_nat_add of_nat_Suc split: option.splits)

lemma toString_2025: "toString 2025 = ''2025''"
  by code_simp

lemma zero_pad3_1: "zero_pad3 1 = ''001''"
  by code_simp

lemma zero_pad3_3: "zero_pad3 3 = ''003''"
  by code_simp

lemma split_ws_Nil:
  assumes "dropWhile non_space s = []"
  shows "split_ws s = [s]"
  by (subst split_ws.simps) (simp only: assms list.case)

lemma split_ws_Cons:
  assumes "dropWhile non_space s = c # rest"
  shows "split_ws s = takeWhile non_space s # split_ws (dropWhile is_space rest)"
  by (subst split_ws.simps) (simp only: assms list.case)




lemma count_words_space: "is_space c \<Longrightarrow> count_words b (c # r) = count_words False r"
  by simp


subsection \<open>Tracking ids\<close>

text \<open>
  Claim C3. For every stored collection and year, \<open>generateTrackingId\<close> returns the year,
  a hyphen, and the number of stored logs whose tracking id starts with the year plus
  one, written with zeros in front up to three digits (exactly three digits below 1000).
  With no stored log of 2025 the result is \<open>2025-001\<close>, with two it is \<open>2025-003\<close>.
\<close>

theorem generateTrackingId_format:
  "generateTrackingId st y = toString y @ ''-'' @ zero_pad3 (year_count st y + 1)
   \<and> (year_count st y + 1 < 1000 \<longrightarrow>
        zero_pad3 (year_count st y + 1)
          = [digit_char ((year_count st y + 1) div 100),
             digit_char ((year_count st y + 1) div 10 mod 10),
             digit_char ((year_count st y + 1) mod 10)])
   \<and> (year_count st 2025 = 0 \<longrightarrow> generateTrackingId st 2025 = ''2025-001'')
   \<and> (year_count st 2025 = 2 \<longrightarrow> generateTrackingId st 2025 = ''2025-003'')"
proof -
  have "year_count st 2025 = 0 \<Longrightarrow> generateTrackingId st 2025 = ''2025-001''"
    using zero_pad3_1 by (simp add: generateTrackingId_eq toString_2025)
  moreover have "year_count st 2025 = 2 \<Longrightarrow> generateTrackingId st 2025 = ''2025-003''"
    using zero_pad3_3 by (simp add: generateTrackingId_eq toString_2025)
  ultimately show ?thesis
    using generateTrackingId_eq [of st y] zero_pad3_small [of "year_count st y + 1"]
    by blast
qed

theorem generateTrackingId_format_witness:
  "year_count None 2025 = 0 \<and> generateTrackingId None 2025 = ''2025-001''
   \<and> year_count (Some demo_store) 2025 = 2 \<and> year_count (Some demo_store) 2025 + 1 < 1000
   \<and> generateTrackingId (Some demo_store) 2025 = ''2025-003''"
proof -
  have a: "year_count None 2025 = 0"
    by (simp add: year_count_def)
  have b: "year_count (Some demo_store) 2025 = 2"
    by (simp add: year_count_def demo_store_def demo_log_def toString_2025)
  have c: "generateTrackingId None 2025 = ''2025-001''"
    using a generateTrackingId_format [of None 2025] by blast
  have d: "generateTrackingId (Some demo_store) 2025 = ''2025-003''"
    using b generateTrackingId_format [of "Some demo_store" 2025] by blast
  show ?thesis
    using a b c d by simp
qed

subsection \<open>Metrics\<close>



subsection \<open>Recording an intervention\<close>

text \<open>
  Claim C7. When the replacement or the rationale text is empty, confirming an
  intervention raises no error and returns the session as it was: page texts, the
  rationales in memory and the stored logs with their scores are all unchanged. The
  confirm button is disabled in that case, too.
\<close>

theorem confirmIntervention_empty_noop:
  "selectedAlt s = [] \<or> rationaleText s = [] \<Longrightarrow>
     confirmIntervention now s = Inr s \<and> \<not> enabled (Confirm now) s \<and> step (Confirm now) s = s"
  by (auto simp: confirmIntervention_def step_def split: option.splits)

theorem confirmIntervention_empty_noop_witness:
  "rationaleText (demo_review\<lparr>rationaleText := []\<rparr>) = []
   \<and> confirmIntervention 7 (demo_review\<lparr>rationaleText := []\<rparr>) = Inr (demo_review\<lparr>rationaleText := []\<rparr>)"
  using confirmIntervention_empty_noop [of "demo_review\<lparr>rationaleText := []\<rparr>" 7]
  by simp

subsection \<open>Scores of the stored log\<close>


lemma findIndex_find:
  "0 \<le> findIndex P xs \<Longrightarrow> List.find P xs = Some (xs ! nat (findIndex P xs)) \<and> P (xs ! nat (findIndex P xs))"
proof (induction xs)
  case Nil
  then show ?case by simp
next
  case (Cons x xs)
  show ?case
  proof (cases "P x")
    case True
    then show ?thesis by simp
  next
    case False
    with Cons.prems have pos: "0 \<le> findIndex P xs"
      by (simp add: Let_def split: if_splits)
    with False Cons.IH show ?thesis
      by (simp add: Let_def nat_add_distrib)
  qed
qed

lemma findIndex_none: "findIndex P xs < 0 \<Longrightarrow> List.find P xs = None"
  by (induction xs) (auto simp: Let_def split: if_splits)

lemma find_findIndex: "List.find P xs = Some x \<Longrightarrow> 0 \<le> findIndex P xs"
  using findIndex_none [of P xs] by force







lemma find_update_first:
  "0 \<le> findIndex P xs \<Longrightarrow> P y \<Longrightarrow> List.find P (xs[nat (findIndex P xs) := y]) = Some y"
proof (induction xs)
  case Nil
  then show ?case by simp
next
  case (Cons x xs)
  show ?case
  proof (cases "P x")
    case True
    with Cons.prems show ?thesis by simp
  next
    case False
    with Cons.prems have pos: "0 \<le> findIndex P xs"
      by (simp add: Let_def split: if_splits)
    with False Cons show ?thesis
      by (simp add: Let_def nat_add_distrib)
  qed
qed



subsection \<open>Translation\<close>


lemma translate_loop_fail:
  "k < length ps \<Longrightarrow> nth_response gw lang mode (gatewayCalls s) ps k = Fails \<Longrightarrow>
   (\<And>j. j < k \<Longrightarrow> nth_response gw lang mode (gatewayCalls s) ps j \<noteq> Fails) \<Longrightarrow>
   \<exists>p. translate_loop gw lang mode n i ps res s
         = (Inl GatewayError,
            s\<lparr>progress := p,
              gatewayCalls := gatewayCalls s @ map (translate_prompt lang mode) (take (Suc k) ps)\<rparr>)"
proof (induction ps arbitrary: s res i k)
  case Nil
  then show ?case by simp
next
  case (Cons page rest)
  define prompt where "prompt = translate_prompt lang mode page"
  define msg where "msg = ''Translating segment '' @ toString (int (i + 1)) @ '' of ''
                    @ toString (int n) @ ''...''"
  define s2 where "s2 = s\<lparr>progress := msg, gatewayCalls := gatewayCalls s @ [prompt]\<rparr>"
  have first: "nth_response gw lang mode (gatewayCalls s) (page # rest) 0 = gw (gatewayCalls s) prompt"
    by (simp add: nth_response_def prompt_def)
  have shift: "\<And>k. nth_response gw lang mode (gatewayCalls s2) rest k
                = nth_response gw lang mode (gatewayCalls s) (page # rest) (Suc k)"
    by (simp add: nth_response_def s2_def prompt_def)
  show ?case
  proof (cases k)
    case 0
    with Cons.prems(2) first have f: "gw (gatewayCalls s) prompt = Fails" by simp
    have "translate_loop gw lang mode n i (page # rest) res s
        = (Inl GatewayError,
           s\<lparr>progress := msg,
             gatewayCalls := gatewayCalls s @ map (translate_prompt lang mode) (take (Suc k) (page # rest))\<rparr>)"
      using f 0 by (simp add: Let_def prompt_def msg_def)
    then show ?thesis by blast
  next
    case (Suc k')
    from Cons.prems(3) [of 0] Suc first obtain t where t: "gw (gatewayCalls s) prompt = Response t"
      by (cases "gw (gatewayCalls s) prompt") auto
    have a: "k' < length rest" using Cons.prems(1) Suc by simp
    have b: "nth_response gw lang mode (gatewayCalls s2) rest k' = Fails"
      using Cons.prems(2) Suc by (simp add: shift)
    have c: "\<And>j. j < k' \<Longrightarrow> nth_response gw lang mode (gatewayCalls s2) rest j \<noteq> Fails"
      using Cons.prems(3) Suc by (simp add: shift)
    from Cons.IH [OF a b c, of "i + 1" "res @ [case t of None \<Rightarrow> [] | Some x \<Rightarrow> x]"]
    obtain p where p: "translate_loop gw lang mode n (i + 1) rest (res @ [case t of None \<Rightarrow> [] | Some x \<Rightarrow> x]) s2
         = (Inl GatewayError,
            s2\<lparr>progress := p,
              gatewayCalls := gatewayCalls s2 @ map (translate_prompt lang mode) (take (Suc k') rest)\<rparr>)"
      by blast
    have unfold: "translate_loop gw lang mode n i (page # rest) res s
        = translate_loop gw lang mode n (i + 1) rest (res @ [case t of None \<Rightarrow> [] | Some x \<Rightarrow> x]) s2"
      using t by (simp add: Let_def prompt_def s2_def msg_def)
    have st: "s2\<lparr>progress := p,
                gatewayCalls := gatewayCalls s2 @ map (translate_prompt lang mode) (take (Suc k') rest)\<rparr>
        = s\<lparr>progress := p,
            gatewayCalls := gatewayCalls s @ map (translate_prompt lang mode) (take (Suc k) (page # rest))\<rparr>"
      by (simp add: s2_def prompt_def Suc)
    show ?thesis
      by (rule exI [of _ p]) (simp only: unfold p st)
  qed
qed



text \<open>
  Claim C6. When the call for some page raises, \<open>handleTranslate\<close> shows the alert
  \<open>Pipeline Failure\<close> and changes neither the status nor the store nor the edited
  pages; the prompts sent stop at the first failing page (none is sent twice), the
  initiate flag is cleared, and the effect that starts a translation does not fire
  again on the resulting session.
\<close>

theorem handleTranslate_failure:
  assumes k: "k < length (sourcePages s)"
    and fails: "nth_response gw (targetLanguage s) ''General'' (gatewayCalls s) (sourcePages s) k = Fails"
  shows "(\<exists>j\<le>k. handleTranslate gw now now' s
            = s\<lparr>gatewayCalls := gatewayCalls s
                   @ map (translate_prompt (targetLanguage s) ''General'') (take (Suc j) (sourcePages s)),
                 alerts := alerts s @ [''Pipeline Failure''],
                 initiateTranslation := False, isLoading := False, progress := []\<rparr>)
       \<and> qcStatus (handleTranslate gw now now' s) = qcStatus s
       \<and> storage (handleTranslate gw now now' s) = storage s
       \<and> editedPages (handleTranslate gw now now' s) = editedPages s
       \<and> alerts (handleTranslate gw now now' s) = alerts s @ [''Pipeline Failure'']
       \<and> autoTranslate gw2 t t' (handleTranslate gw now now' s) = handleTranslate gw now now' s"
proof -
  define F where "F = (\<lambda>k. nth_response gw (targetLanguage s) ''General'' (gatewayCalls s) (sourcePages s) k = Fails)"
  have "\<exists>k. F k" using fails by (auto simp: F_def)
  then obtain j where j: "F j" and least: "\<And>i. i < j \<Longrightarrow> \<not> F i"
    by (auto simp: exists_least_iff [of F])
  have "F k" using fails by (simp add: F_def)
  with least [of k] have jk: "j \<le> k" by (cases "k < j") auto
  then have jlt: "j < length (sourcePages s)" using k by simp
  define s1 where "s1 = s\<lparr>isLoading := True, progress := ''Mapping Intelligence Pipeline...''\<rparr>"
  have a: "nth_response gw (targetLanguage s) ''General'' (gatewayCalls s1) (sourcePages s) j = Fails"
    using j by (simp add: F_def s1_def)
  have b: "\<And>i. i < j \<Longrightarrow>
      nth_response gw (targetLanguage s) ''General'' (gatewayCalls s1) (sourcePages s) i \<noteq> Fails"
    using least by (simp add: F_def s1_def)
  from translate_loop_fail [OF jlt a b, of "length (sourcePages s)" 0 "[]"]
  obtain p where p: "translate_loop gw (targetLanguage s) ''General'' (length (sourcePages s)) 0
        (sourcePages s) [] s1
      = (Inl GatewayError,
         s1\<lparr>progress := p,
            gatewayCalls := gatewayCalls s
              @ map (translate_prompt (targetLanguage s) ''General'') (take (Suc j) (sourcePages s))\<rparr>)"
    by (auto simp: s1_def)
  have ne: "sourcePages s \<noteq> []" using k by auto
  have eq: "handleTranslate gw now now' s
            = s\<lparr>gatewayCalls := gatewayCalls s
                   @ map (translate_prompt (targetLanguage s) ''General'') (take (Suc j) (sourcePages s)),
                 alerts := alerts s @ [''Pipeline Failure''],
                 initiateTranslation := False, isLoading := False, progress := []\<rparr>"
    using ne p by (simp add: handleTranslate_def translateDocument_def Let_def s1_def)
  have "\<exists>j\<le>k. handleTranslate gw now now' s
            = s\<lparr>gatewayCalls := gatewayCalls s
                   @ map (translate_prompt (targetLanguage s) ''General'') (take (Suc j) (sourcePages s)),
                 alerts := alerts s @ [''Pipeline Failure''],
                 initiateTranslation := False, isLoading := False, progress := []\<rparr>"
    using jk eq by blast
  moreover have "qcStatus (handleTranslate gw now now' s) = qcStatus s"
    "storage (handleTranslate gw now now' s) = storage s"
    "editedPages (handleTranslate gw now now' s) = editedPages s"
    "alerts (handleTranslate gw now now' s) = alerts s @ [''Pipeline Failure'']"
    "autoTranslate gw2 t t' (handleTranslate gw now now' s) = handleTranslate gw now now' s"
    by (simp_all add: eq autoTranslate_def)
  ultimately show ?thesis by blast
qed

theorem handleTranslate_failure_witness:
  "(1::nat) < length (sourcePages demo_draft)
   \<and> qcStatus (handleTranslate gw_fail_second 10 11 demo_draft) = Draft
   \<and> storage (handleTranslate gw_fail_second 10 11 demo_draft) = Some demo_store
   \<and> editedPages (handleTranslate gw_fail_second 10 11 demo_draft) = []
   \<and> alerts (handleTranslate gw_fail_second 10 11 demo_draft) = [''Pipeline Failure'']"
proof -
  have k: "(1::nat) < length (sourcePages demo_draft)"
    by (simp add: demo_draft_def)
  have f: "nth_response gw_fail_second (targetLanguage demo_draft) ''General''
      (gatewayCalls demo_draft) (sourcePages demo_draft) 1 = Fails"
    by (simp add: nth_response_def gw_fail_second_def demo_draft_def initial_def)
  have v: "qcStatus demo_draft = Draft" "storage demo_draft = Some demo_store"
    "editedPages demo_draft = []" "alerts demo_draft = []"
    by (simp_all add: demo_draft_def initial_def)
  from handleTranslate_failure [OF k f, of 10 11] v k
  show ?thesis by simp
qed

subsection \<open>Extraction of JSON\<close>

lemma findIndex_eq:
  "findIndex (\<lambda>x. x = c) s
     = (if c \<in> set s then int (length (takeWhile (\<lambda>x. x \<noteq> c) s)) else - 1)"
  by (induction s) (auto simp: Let_def)

lemma indexOf_eq:
  "indexOf s c = (if c \<in> set s then int (length (takeWhile (\<lambda>x. x \<noteq> c) s)) else - 1)"
  by (simp add: indexOf_def findIndex_eq)

lemma length_takeWhile_less: "c \<in> set s \<Longrightarrow> length (takeWhile (\<lambda>x. x \<noteq> c) s) < length s"
  by (induction s) auto

lemma lastIndexOf_eq:
  "lastIndexOf s c
     = (if c \<in> set s then int (length s - 1 - length (takeWhile (\<lambda>x. x \<noteq> c) (rev s))) else - 1)"
  using length_takeWhile_less [of c "rev s"]
  by (auto simp: lastIndexOf_def findIndex_eq Let_def)

lemma substring_eq:
  "a \<le> b \<Longrightarrow> b \<le> length s \<Longrightarrow> substring s (int a) (int b) = drop a (take b s)"
proof -
  assume ab: "a \<le> b" and bl: "b \<le> length s"
  have "int b - int a = int (b - a)" using ab by simp
  then show ?thesis
    using ab bl by (simp add: substring_def Let_def drop_take min_def max_def del: of_nat_diff)
qed

lemma candidate_eq:
  "(if indexOf s l \<noteq> - 1 \<and> lastIndexOf s r \<noteq> - 1 \<and> lastIndexOf s r > indexOf s l
    then try_parse parse (substring s (indexOf s l) (lastIndexOf s r + 1)) else None)
   = first_success parse (between l r s)"
proof (cases "l \<in> set s \<and> r \<in> set s")
  case False
  then show ?thesis
    by (auto simp: indexOf_eq lastIndexOf_eq between_def)
next
  case True
  define a where "a = length (takeWhile (\<lambda>x. x \<noteq> l) s)"
  define b where "b = length s - 1 - length (takeWhile (\<lambda>x. x \<noteq> r) (rev s))"
  have rl: "length (takeWhile (\<lambda>x. x \<noteq> r) (rev s)) < length s"
    using True length_takeWhile_less [of r "rev s"] by simp
  have i: "indexOf s l = int a" "lastIndexOf s r = int b"
    using True by (simp_all add: indexOf_eq lastIndexOf_eq a_def b_def)
  have b1: "Suc b = length s - length (takeWhile (\<lambda>x. x \<noteq> r) (rev s))" "Suc b \<le> length s"
    using rl by (simp_all add: b_def)
  have btw: "between l r s = (if a < b then [drop a (take (Suc b) s)] else [])"
    using True rl unfolding between_def a_def b_def
    by (simp add: Suc_diff_Suc)
  show ?thesis
  proof (cases "a < b")
    case False
    then show ?thesis
      by (simp add: i btw)
  next
    case lt: True
    have "substring s (int a) (int b + 1) = drop a (take (Suc b) s)"
      using substring_eq [of a "Suc b" s] lt b1(2) by (simp add: add.commute)
    then show ?thesis
      using lt by (simp add: i btw try_parse_def split: sum.splits)
  qed
qed

lemma first_success_append:
  "first_success parse (xs @ ys)
     = (case first_success parse xs of Some v \<Rightarrow> Some v | None \<Rightarrow> first_success parse ys)"
  by (induction xs) (auto split: sum.splits)

lemma first_success_fail:
  "\<forall>c \<in> set cs. \<exists>e. parse c = Inl e \<Longrightarrow> first_success parse cs = None"
  by (induction cs) (fastforce split: sum.splits)+

lemma extractJson_candidates:
  "t \<noteq> [] \<Longrightarrow>
   extractJson parse (Some t)
     = Inr (case first_success parse (candidates (cleanText_of t)) of Some v \<Rightarrow> v | None \<Rightarrow> JNull)"
  apply (simp only: extractJson_def Let_def candidate_eq option.case if_False)
  apply (simp add: candidates_def first_success_append split: option.splits sum.splits)
  done

lemma candidates_fenced: "candidates (cleanText_of fenced_array) = [''[1,2,3]'', [CHR 0x0A] @ ''[1,2,3]'' @ [CHR 0x0A]]"
  by code_simp

text \<open>
  Claim C8. \<open>extractJson\<close> never raises, whatever \<open>JSON.parse\<close> does: on an absent
  or empty text it returns \<open>null\<close>; otherwise it returns the first successful parse
  among, in this order, the text from the first \<open>[\<close> to the last \<open>]\<close>, the text from the
  first \<open>{\<close> to the last \<open>}\<close> and the whole cleaned text, and \<open>null\<close> when none of
  them parses. On the fenced response \<open>```json [1,2,3] ```\<close> (with line breaks inside
  the fence) it returns what \<open>JSON.parse\<close> gives for \<open>[1,2,3]\<close>.
\<close>

theorem extractJson_never_throws:
  "(\<exists>v. extractJson parse text = Inr v)
   \<and> (text = None \<or> text = Some [] \<longrightarrow> extractJson parse text = Inr JNull)
   \<and> (\<forall>t. text = Some t \<and> t \<noteq> [] \<longrightarrow>
         extractJson parse text
           = Inr (case first_success parse (candidates (cleanText_of t)) of
                    Some v \<Rightarrow> v | None \<Rightarrow> JNull))
   \<and> (\<forall>t. text = Some t \<and> (\<forall>c \<in> set (candidates (cleanText_of t)). \<exists>e. parse c = Inl e) \<longrightarrow>
         extractJson parse text = Inr JNull)
   \<and> (\<forall>arr. parse ''[1,2,3]'' = Inr arr \<longrightarrow> extractJson parse (Some fenced_array) = Inr arr)"
proof -
  have empty: "text = None \<or> text = Some [] \<Longrightarrow> extractJson parse text = Inr JNull"
    by (auto simp: extractJson_def)
  have cand: "\<And>t. text = Some t \<Longrightarrow> t \<noteq> [] \<Longrightarrow>
      extractJson parse text
        = Inr (case first_success parse (candidates (cleanText_of t)) of Some v \<Rightarrow> v | None \<Rightarrow> JNull)"
    by (simp add: extractJson_candidates)
  have tot: "\<exists>v. extractJson parse text = Inr v"
  proof (cases "text")
    case None
    then show ?thesis using empty by simp
  next
    case (Some t)
    then show ?thesis using empty cand [of t] by (cases "t = []") auto
  qed
  have garbage: "\<And>t. text = Some t \<Longrightarrow>
      \<forall>c \<in> set (candidates (cleanText_of t)). \<exists>e. parse c = Inl e \<Longrightarrow>
      extractJson parse text = Inr JNull"
  proof -
    fix t assume t: "text = Some t"
      and bad: "\<forall>c \<in> set (candidates (cleanText_of t)). \<exists>e. parse c = Inl e"
    have "first_success parse (candidates (cleanText_of t)) = None"
      using bad by (rule first_success_fail)
    then show "extractJson parse text = Inr JNull"
      using t empty cand [of t] by (cases "t = []") auto
  qed
  have ne: "fenced_array \<noteq> []" by (simp add: fenced_array_def)
  have example: "\<And>arr. parse ''[1,2,3]'' = Inr arr \<Longrightarrow> extractJson parse (Some fenced_array) = Inr arr"
    by (simp add: extractJson_candidates [OF ne] candidates_fenced)
  show ?thesis
    using empty cand tot garbage example by blast
qed

theorem extractJson_never_throws_witness:
  "demo_parse ''[1,2,3]'' = Inr (JArray [JNumber 1, JNumber 2, JNumber 3])
   \<and> extractJson demo_parse (Some fenced_array) = Inr (JArray [JNumber 1, JNumber 2, JNumber 3])
   \<and> extractJson demo_parse (Some ''not json at all'') = Inr JNull
   \<and> extractJson demo_parse None = Inr JNull"
proof -
  have p: "demo_parse ''[1,2,3]'' = Inr (JArray [JNumber 1, JNumber 2, JNumber 3])"
    by (simp add: demo_parse_def)
  have c: "candidates (cleanText_of ''not json at all'') = [''not json at all'']"
    by code_simp
  have g: "\<forall>c \<in> set (candidates (cleanText_of ''not json at all'')). \<exists>e. demo_parse c = Inl e"
    by (simp add: c demo_parse_def)
  have a: "extractJson demo_parse (Some fenced_array) = Inr (JArray [JNumber 1, JNumber 2, JNumber 3])"
    using p extractJson_never_throws [of demo_parse "Some fenced_array"] by blast
  have b: "extractJson demo_parse (Some ''not json at all'') = Inr JNull"
    using g extractJson_never_throws [of demo_parse "Some ''not json at all''"] by blast
  have d: "extractJson demo_parse None = Inr JNull"
    using extractJson_never_throws [of demo_parse None] by blast
  show ?thesis using p a b d by simp
qed

subsection \<open>The stored status\<close>

lemma find_none_findIndex: "List.find P xs = None \<Longrightarrow> findIndex P xs = - 1"
  by (induction xs) (auto simp: Let_def split: if_splits)

lemma updatePersistentStatus_fields:
  "qcStatus (updatePersistentStatus st s) = qcStatus s"
  "editedPages (updatePersistentStatus st s) = editedPages s"
  "isReviewMode (updatePersistentStatus st s) = isReviewMode s"
  "currentLogId (updatePersistentStatus st s) = currentLogId s"
  by (simp_all add: updatePersistentStatus_def Let_def split: option.splits)

lemma updatePersistentStatus_found:
  assumes "persisted_log s = Some lg"
  shows "persisted_log (updatePersistentStatus st s) = Some (lg\<lparr>log_status := st\<rparr>)"
proof -
  from assms obtain metrics where m: "storage s = Some metrics"
    and f: "List.find (\<lambda>m. log_id m = currentLogId s) metrics = Some lg"
    by (auto simp: persisted_log_def split: option.splits)
  define P where "P = (\<lambda>m::TranslationLog. log_id m = currentLogId s)"
  have idx: "0 \<le> findIndex P metrics"
    using f find_findIndex [of P metrics lg] by (simp add: P_def)
  have kth: "metrics ! nat (findIndex P metrics) = lg" "P lg"
    using findIndex_find [OF idx] f by (simp_all add: P_def)
  have "P (lg\<lparr>log_status := st\<rparr>)" using kth(2) by (simp add: P_def)
  from find_update_first [OF idx this] show ?thesis
    using m idx kth(1) by (simp add: updatePersistentStatus_def persisted_log_def Let_def P_def)
qed

lemma updatePersistentStatus_absent:
  "persisted_log s = None \<Longrightarrow> updatePersistentStatus st s = s"
  by (auto simp: updatePersistentStatus_def persisted_log_def Let_def find_none_findIndex
      split: option.splits)

lemma persisted_log_qcStatus: "persisted_log (s\<lparr>qcStatus := q\<rparr>) = persisted_log s"
  by (simp add: persisted_log_def split: option.splits)

subsection \<open>The status of a session\<close>













lemma reachable_step: "reachable s \<Longrightarrow> reachable (step e s)"
  by (cases "enabled e s") (auto simp: step_def intro: reachable.step)

lemma reachable_run: "reachable s \<Longrightarrow> reachable (run es s)"
  unfolding run_def by (induction es arbitrary: s) (auto intro: reachable_step)






lemma reachable_demo_reviewing: "reachable demo_reviewing"
  unfolding demo_reviewing_def by (rule reachable_run) (rule reachable.init)





subsection \<open>Downloads\<close>

lemma demo_finalized_view:
  "(qcStatus demo_finalized, isLargeScreen demo_finalized,
    map_option log_status (persisted_log demo_finalized)) = (QC_Finalized, False, Some QC_Finalized)"
  unfolding prod.inject [symmetric] by code_simp

lemma demo_finalized_fields:
  "qcStatus demo_finalized = QC_Finalized" "\<not> isLargeScreen demo_finalized"
  "map_option log_status (persisted_log demo_finalized) = Some QC_Finalized"
  using demo_finalized_view by simp_all

lemma reachable_demo_finalized: "reachable demo_finalized"
  unfolding demo_finalized_def by (rule reachable_step) (rule reachable_demo_reviewing)

text \<open>
  Claim C9, as the code has it. The two download buttons are offered only in status
  QC Finalized or Downloaded. The Word download, and the PDF download when its print
  window opens, set the status to Downloaded in memory and in the stored log of the
  session (when the store holds one); the PDF download changes nothing when the print
  window does not open. Downloading from status Downloaded leaves the status
  Downloaded.
\<close>

theorem download_sets_downloaded:
  "(enabled DownloadWord s \<longrightarrow> qcStatus s = QC_Finalized \<or> qcStatus s = Downloaded)
   \<and> (enabled (DownloadPDF w) s \<longrightarrow> qcStatus s = QC_Finalized \<or> qcStatus s = Downloaded)
   \<and> qcStatus (handleDownloadWord s) = Downloaded
   \<and> qcStatus (handleDownloadPDF True s) = Downloaded
   \<and> handleDownloadPDF False s = s
   \<and> (\<forall>lg. persisted_log s = Some lg \<longrightarrow>
         persisted_log (handleDownloadWord s) = Some (lg\<lparr>log_status := Downloaded\<rparr>)
         \<and> persisted_log (handleDownloadPDF True s) = Some (lg\<lparr>log_status := Downloaded\<rparr>))
   \<and> (persisted_log s = None \<longrightarrow>
         storage (handleDownloadWord s) = storage s \<and> storage (handleDownloadPDF True s) = storage s)
   \<and> (qcStatus s = Downloaded \<longrightarrow>
         qcStatus (step DownloadWord s) = Downloaded \<and> qcStatus (step (DownloadPDF w) s) = Downloaded)"
proof -
  have a: "\<And>lg. persisted_log s = Some lg \<Longrightarrow>
      persisted_log (handleDownloadWord s) = Some (lg\<lparr>log_status := Downloaded\<rparr>)
      \<and> persisted_log (handleDownloadPDF True s) = Some (lg\<lparr>log_status := Downloaded\<rparr>)"
    by (simp add: handleDownloadWord_def handleDownloadPDF_def updatePersistentStatus_found
        persisted_log_qcStatus)
  have b: "persisted_log s = None \<Longrightarrow>
      storage (handleDownloadWord s) = storage s \<and> storage (handleDownloadPDF True s) = storage s"
    by (simp add: handleDownloadWord_def handleDownloadPDF_def updatePersistentStatus_absent
        persisted_log_qcStatus)
  have c: "qcStatus s = Downloaded \<Longrightarrow>
      qcStatus (step DownloadWord s) = Downloaded \<and> qcStatus (step (DownloadPDF w) s) = Downloaded"
    by (simp add: step_def handleDownloadWord_def handleDownloadPDF_def updatePersistentStatus_fields)
  have d: "qcStatus (handleDownloadWord s) = Downloaded" "qcStatus (handleDownloadPDF True s) = Downloaded"
    "handleDownloadPDF False s = s"
    by (simp_all add: handleDownloadWord_def handleDownloadPDF_def updatePersistentStatus_fields)
  have e: "enabled DownloadWord s \<longrightarrow> qcStatus s = QC_Finalized \<or> qcStatus s = Downloaded"
    "enabled (DownloadPDF w) s \<longrightarrow> qcStatus s = QC_Finalized \<or> qcStatus s = Downloaded"
    by simp_all
  show ?thesis
    using a b c d e by blast
qed

theorem download_sets_downloaded_witness:
  "enabled DownloadWord demo_finalized
   \<and> qcStatus demo_finalized = QC_Finalized
   \<and> qcStatus (handleDownloadWord demo_finalized) = Downloaded
   \<and> map_option log_status (persisted_log (handleDownloadWord demo_finalized)) = Some Downloaded
   \<and> qcStatus (step DownloadWord (step DownloadWord demo_finalized)) = Downloaded"
proof -
  have en: "enabled DownloadWord demo_finalized" "qcStatus demo_finalized = QC_Finalized"
    by (simp_all add: demo_finalized_fields)
  have st: "step DownloadWord demo_finalized = handleDownloadWord demo_finalized"
    using en by (simp add: step_def)
  obtain lg where lg: "persisted_log demo_finalized = Some lg"
    using demo_finalized_fields(3) by (cases "persisted_log demo_finalized") auto
  have a: "qcStatus (handleDownloadWord demo_finalized) = Downloaded"
    using download_sets_downloaded [of demo_finalized True] by blast
  have "persisted_log (handleDownloadWord demo_finalized) = Some (lg\<lparr>log_status := Downloaded\<rparr>)"
    using download_sets_downloaded [of demo_finalized True] lg by blast
  then have b: "map_option log_status (persisted_log (handleDownloadWord demo_finalized)) = Some Downloaded"
    by simp
  have c: "qcStatus (step DownloadWord (handleDownloadWord demo_finalized)) = Downloaded"
    using download_sets_downloaded [of "handleDownloadWord demo_finalized" True] a by blast
  show ?thesis
    using en st a b c by simp
qed

text \<open>The PDF download with a blocked print window, on a session that was translated,
  reviewed and finalized: the button is offered, and status and stored log stay
  QC Finalized.\<close>

theorem pdf_blocked_counterexample:
  "reachable demo_finalized
   \<and> enabled (DownloadPDF False) demo_finalized
   \<and> qcStatus (step (DownloadPDF False) demo_finalized) = QC_Finalized
   \<and> map_option log_status (persisted_log (step (DownloadPDF False) demo_finalized)) = Some QC_Finalized"
  using reachable_demo_finalized
  by (simp add: step_def handleDownloadPDF_def demo_finalized_fields)

subsection \<open>Replacing one word of a page\<close>

subsubsection \<open>Splitting and joining\<close>

lemma split_ws_no_space: "no_space w \<Longrightarrow> split_ws w = [w]"
proof -
  assume "no_space w"
  then have "dropWhile non_space w = []"
    by (simp add: no_space_def list_all_iff)
  then show ?thesis by (rule split_ws_Nil)
qed

lemma split_ws_sep:
  assumes "no_space w" "is_space c"
  shows "split_ws (w @ c # rest) = w # split_ws (dropWhile is_space rest)"
proof -
  have a: "dropWhile non_space (w @ c # rest) = c # rest"
    using assms by (simp add: no_space_def list_all_iff dropWhile_append)
  have b: "takeWhile non_space (w @ c # rest) = w"
    using assms by (simp add: no_space_def list_all_iff takeWhile_append)
  show ?thesis
    by (simp add: split_ws_Cons [OF a] b)
qed

lemma wf_tokens_split_ws: "wf_tokens (split_ws s)"
proof (induction s rule: split_ws.induct)
  case (1 s)
  show ?case
  proof (cases "dropWhile non_space s")
    case Nil
    then have "no_space s"
      by (simp add: no_space_def list_all_iff)
    then show ?thesis
      by (simp add: split_ws_Nil [OF Nil])
  next
    case (Cons c rest)
    define R where "R = dropWhile is_space rest"
    have hd: "no_space (takeWhile non_space s)"
      by (auto simp: no_space_def list_all_iff dest: set_takeWhileD)
    have ih: "wf_tokens (split_ws R)"
      using 1 Cons by (simp add: R_def)
    have eq: "split_ws s = takeWhile non_space s # split_ws R"
      unfolding R_def by (rule split_ws_Cons [OF Cons])
    have shape: "\<exists>v vs. split_ws R = v # vs \<and> (v \<noteq> [] \<or> vs = [])"
    proof (cases R)
      case Nil
      then show ?thesis by (simp add: split_ws_no_space no_space_def)
    next
      case (Cons r rs)
      then have "non_space r"
        using hd_dropWhile [of is_space rest] by (simp add: R_def)
      then have ne: "takeWhile non_space R \<noteq> []"
        using Cons by simp
      show ?thesis
      proof (cases "dropWhile non_space R")
        case Nil
        then show ?thesis using Cons by (simp add: split_ws_Nil)
      next
        case (Cons d ds)
        then show ?thesis using ne by (simp add: split_ws_Cons)
      qed
    qed
    then obtain v vs where "split_ws R = v # vs" "v \<noteq> [] \<or> vs = []" by blast
    with ih hd show ?thesis
      by (simp add: eq)
  qed
qed

lemma dropWhile_space_join:
  "wf_tokens (v # vs) \<Longrightarrow> v \<noteq> [] \<or> vs = [] \<Longrightarrow>
     dropWhile is_space (join '' '' (v # vs)) = join '' '' (v # vs)"
proof (cases v)
  case Nil
  assume "wf_tokens (v # vs)" "v \<noteq> [] \<or> vs = []"
  with Nil show ?thesis by simp
next
  case (Cons c cs)
  assume wf: "wf_tokens (v # vs)"
  then have "no_space v" by (cases vs) simp_all
  with Cons have "non_space c" by (simp add: no_space_def)
  with Cons show ?thesis by (cases vs) simp_all
qed

lemma space_is_space: "is_space CHR '' ''"
  by (simp add: is_space_def)

lemma split_ws_join: "wf_tokens ws \<Longrightarrow> split_ws (join '' '' ws) = ws"
proof (induction ws rule: wf_tokens.induct)
  case 1
  then show ?case by simp
next
  case (2 w)
  then show ?case by (simp add: split_ws_no_space)
next
  case (3 w v vs)
  then have w: "no_space w" and v: "v \<noteq> [] \<or> vs = []" and wf: "wf_tokens (v # vs)"
    by simp_all
  have "split_ws (join '' '' (w # v # vs)) = split_ws (w @ CHR '' '' # join '' '' (v # vs))"
    by simp
  also have "\<dots> = w # split_ws (dropWhile is_space (join '' '' (v # vs)))"
    by (rule split_ws_sep [OF w space_is_space])
  also have "\<dots> = w # split_ws (join '' '' (v # vs))"
    by (simp only: dropWhile_space_join [OF wf v])
  also have "\<dots> = w # v # vs"
    using 3 wf by simp
  finally show ?case .
qed

lemma wf_tokens_update:
  "wf_tokens ws \<Longrightarrow> i < length ws \<Longrightarrow> a \<noteq> [] \<Longrightarrow> no_space a \<Longrightarrow> wf_tokens (ws[i := a])"
proof (induction ws arbitrary: i rule: wf_tokens.induct)
  case 1
  then show ?case by simp
next
  case (2 w)
  then show ?case by simp
next
  case (3 w v vs)
  show ?case
  proof (cases i)
    case 0
    with 3 show ?thesis by simp
  next
    case (Suc j)
    with "3.prems" have j: "j < length (v # vs)" by simp
    from "3.prems" have w: "no_space w" and v: "v \<noteq> [] \<or> vs = []" and wf: "wf_tokens (v # vs)"
      by simp_all
    have ih: "wf_tokens ((v # vs)[j := a])"
      using "3.IH" [OF wf j "3.prems"(3) "3.prems"(4)] .
    show ?thesis
    proof (cases j)
      case 0
      with ih w "3.prems"(3) Suc show ?thesis by simp
    next
      case (Suc m)
      with j have "vs \<noteq> []" by auto
      with v have "v \<noteq> []" by simp
      with ih w Suc \<open>i = Suc j\<close> show ?thesis by simp
    qed
  qed
qed

lemma split_ws_replace:
  assumes "i < length (split_ws page)" "a \<noteq> []" "no_space a"
  shows "split_ws (join '' '' ((split_ws page)[i := a])) = (split_ws page)[i := a]"
  by (rule split_ws_join) (rule wf_tokens_update [OF wf_tokens_split_ws assms])

subsubsection \<open>Trimming\<close>

lemma trim_decomp:
  assumes "s = [] \<or> non_space (hd s)"
  shows "\<exists>gap. s = trim s @ gap \<and> list_all is_space gap
            \<and> (trim s = [] \<or> (non_space (hd (trim s)) \<and> non_space (last (trim s))))"
proof -
  have d: "dropWhile is_space s = s"
    using assms by (cases s) auto
  define gap where "gap = rev (takeWhile is_space (rev s))"
  have t: "trim s = rev (dropWhile is_space (rev s))"
    by (simp add: trim_def d)
  have "trim s @ gap = rev (takeWhile is_space (rev s) @ dropWhile is_space (rev s))"
    by (simp only: t gap_def rev_append)
  also have "\<dots> = s"
    by (simp only: takeWhile_dropWhile_id rev_rev_ident)
  finally have eq: "s = trim s @ gap" by simp
  have sp: "list_all is_space gap"
    by (auto simp: gap_def list_all_iff dest: set_takeWhileD)
  have ends: "trim s = [] \<or> (non_space (hd (trim s)) \<and> non_space (last (trim s)))"
  proof (cases "trim s = []")
    case True
    then show ?thesis by simp
  next
    case False
    then have ne: "dropWhile is_space (rev s) \<noteq> []" by (simp add: t)
    then have "non_space (hd (dropWhile is_space (rev s)))"
      by (rule hd_dropWhile)
    then have l: "non_space (last (trim s))"
      using ne by (simp add: t last_rev)
    have "s \<noteq> []" using False eq by auto
    moreover have "hd s = hd (trim s)" using False eq by (metis hd_append2)
    ultimately have "non_space (hd (trim s))" using assms by simp
    with l show ?thesis by simp
  qed
  from eq sp ends show ?thesis by blast
qed

lemma dropWhile_rev_last:
  "xs \<noteq> [] \<Longrightarrow> non_space (last xs) \<Longrightarrow> dropWhile is_space (rev xs) = rev xs"
  by (cases xs rule: rev_cases) auto

lemma trim_id:
  assumes "t = [] \<or> (non_space (hd t) \<and> non_space (last t))"
  shows "trim t = t"
proof (cases t)
  case Nil
  then show ?thesis by (simp add: trim_def)
next
  case (Cons c cs)
  with assms have h: "non_space (hd t)" and l: "non_space (last t)" by simp_all
  have a: "dropWhile is_space t = t" using Cons h by simp
  have b: "dropWhile is_space (rev t) = rev t"
    using Cons l by (intro dropWhile_rev_last) simp_all
  show ?thesis by (simp add: trim_def a b)
qed

lemma trim_trailing:
  assumes "t \<noteq> []" "non_space (hd t)" "non_space (last t)" "list_all is_space gap"
  shows "trim (t @ gap) = t"
proof -
  have a: "dropWhile is_space (t @ gap) = t @ gap"
    using assms(1,2) by (cases t) auto
  have "dropWhile is_space (rev gap @ rev t) = dropWhile is_space (rev t)"
    using assms(4) by (simp add: dropWhile_append list_all_iff)
  moreover have "dropWhile is_space (rev t) = rev t"
    using assms(1,3) by (rule dropWhile_rev_last)
  ultimately show ?thesis by (simp add: trim_def a)
qed

subsubsection \<open>Tokens of a page and of its trimmed text\<close>

lemma split_at_first_space:
  assumes "dropWhile non_space s = c # rest"
  shows "s = takeWhile non_space s @ c # rest" "no_space (takeWhile non_space s)" "is_space c"
proof -
  show "s = takeWhile non_space s @ c # rest"
    using takeWhile_dropWhile_id [of non_space s] assms by simp
  show "no_space (takeWhile non_space s)"
    by (auto simp: no_space_def list_all_iff dest: set_takeWhileD)
  show "is_space c"
    using hd_dropWhile [of non_space s] assms by auto
qed

lemma last_dropWhile_space:
  assumes "rest \<noteq> []" "non_space (last rest)"
  shows "dropWhile is_space rest \<noteq> []" "last (dropWhile is_space rest) = last rest"
    "\<And>gap. dropWhile is_space (rest @ gap) = dropWhile is_space rest @ gap"
proof -
  have m: "last rest \<in> set rest" using assms(1) by simp
  show ne: "dropWhile is_space rest \<noteq> []"
    using m assms(2) by (auto simp: dropWhile_eq_Nil_conv)
  have "rest = takeWhile is_space rest @ dropWhile is_space rest" by simp
  then have "last rest = last (takeWhile is_space rest @ dropWhile is_space rest)" by simp
  also have "\<dots> = last (dropWhile is_space rest)" using ne by (rule last_appendR)
  finally show "last (dropWhile is_space rest) = last rest" by simp
  show "\<And>gap. dropWhile is_space (rest @ gap) = dropWhile is_space rest @ gap"
    using m assms(2) by (intro dropWhile_append1) auto
qed

lemma split_ws_trailing:
  "list_all is_space gap \<Longrightarrow> gap \<noteq> [] \<Longrightarrow> t = [] \<or> non_space (last t) \<Longrightarrow>
     split_ws (t @ gap) = split_ws t @ [[]]"
proof (induction t rule: split_ws.induct)
  case (1 t)
  from "1.prems" obtain g gs where gap: "gap = g # gs" "is_space g" "list_all is_space gs"
    by (cases gap) auto
  have gs: "dropWhile is_space gs = []"
    using gap(3) by (simp add: list_all_iff)
  show ?case
  proof (cases "dropWhile non_space t")
    case Nil
    then have ns: "no_space t" by (simp add: no_space_def list_all_iff)
    have "split_ws (t @ g # gs) = t # split_ws (dropWhile is_space gs)"
      by (rule split_ws_sep [OF ns gap(2)])
    then show ?thesis
      using ns by (simp add: gap(1) gs split_ws_no_space no_space_def)
  next
    case (Cons c rest)
    note parts = split_at_first_space [OF Cons]
    define tw where "tw = takeWhile non_space t"
    have t: "t = tw @ c # rest" using parts(1) by (simp add: tw_def)
    have tw: "no_space tw" using parts(2) by (simp add: tw_def)
    from "1.prems"(3) t have "rest \<noteq> []" "non_space (last rest)"
      using parts(3) by (cases "rest = []"; simp)+
    note r = last_dropWhile_space [OF this]
    have ih: "split_ws (dropWhile is_space rest @ gap) = split_ws (dropWhile is_space rest) @ [[]]"
      using "1.IH" [OF Cons "1.prems"(1) "1.prems"(2)] r(1) r(2) \<open>non_space (last rest)\<close> by simp
    have "split_ws (t @ gap) = split_ws (tw @ c # (rest @ gap))"
      by (subst t) simp
    also have "\<dots> = tw # split_ws (dropWhile is_space (rest @ gap))"
      by (rule split_ws_sep [OF tw parts(3)])
    also have "\<dots> = tw # split_ws (dropWhile is_space rest) @ [[]]"
      by (simp add: r(3) ih)
    finally have e1: "split_ws (t @ gap) = tw # split_ws (dropWhile is_space rest) @ [[]]" .
    have e2: "split_ws t = tw # split_ws (dropWhile is_space rest)"
      unfolding tw_def by (rule split_ws_Cons [OF Cons])
    show ?thesis by (simp add: e1 e2)
  qed
qed

lemma split_ws_words:
  "t \<noteq> [] \<Longrightarrow> non_space (hd t) \<Longrightarrow> non_space (last t) \<Longrightarrow> \<forall>w \<in> set (split_ws t). w \<noteq> []"
proof (induction t rule: split_ws.induct)
  case (1 t)
  show ?case
  proof (cases "dropWhile non_space t")
    case Nil
    with "1.prems"(1) show ?thesis by (simp add: split_ws_Nil)
  next
    case (Cons c rest)
    note parts = split_at_first_space [OF Cons]
    have tw: "takeWhile non_space t \<noteq> []"
      using "1.prems"(1,2) by (cases t) auto
    from "1.prems"(3) parts(1) have "rest \<noteq> []" "non_space (last rest)"
      using parts(3) by (cases "rest = []"; metis last_appendR last_ConsL last_ConsR list.distinct(1))+
    note r = last_dropWhile_space [OF this]
    have "non_space (hd (dropWhile is_space rest))"
      using r(1) by (rule hd_dropWhile)
    with "1.IH" [OF Cons r(1)] r(2) \<open>non_space (last rest)\<close>
    have "\<forall>w \<in> set (split_ws (dropWhile is_space rest)). w \<noteq> []" by simp
    with tw show ?thesis by (simp add: split_ws_Cons [OF Cons])
  qed
qed

subsubsection \<open>Joining words\<close>

lemma join_snoc: "ws \<noteq> [] \<Longrightarrow> join sep (ws @ [x]) = join sep ws @ sep @ x"
  by (induction sep ws rule: join.induct) simp_all

lemma join_words_ends:
  "ws \<noteq> [] \<Longrightarrow> \<forall>w \<in> set ws. w \<noteq> [] \<and> no_space w \<Longrightarrow>
     join '' '' ws \<noteq> [] \<and> non_space (hd (join '' '' ws)) \<and> non_space (last (join '' '' ws))"
proof (induction "'' ''" ws rule: join.induct)
  case 1
  then show ?case by simp
next
  case (2 x)
  then have "x \<noteq> []" "list_all non_space x" by (simp_all add: no_space_def)
  then show ?case by (simp add: list_all_iff)
next
  case (3 x y ys)
  then have x: "x \<noteq> []" "list_all non_space x" by (simp_all add: no_space_def)
  from 3 have ih: "join '' '' (y # ys) \<noteq> []" "non_space (last (join '' '' (y # ys)))"
    by simp_all
  from x have "non_space (hd x)" by (simp add: list_all_iff)
  with x(1) ih show ?case by simp
qed

lemma words_wf:
  "ws \<noteq> [] \<Longrightarrow> \<forall>w \<in> set ws. w \<noteq> [] \<and> no_space w \<Longrightarrow> wf_tokens ws"
  by (induction ws rule: wf_tokens.induct) simp_all

lemma words_update:
  "\<forall>w \<in> set ws. w \<noteq> [] \<and> no_space w \<Longrightarrow> a \<noteq> [] \<Longrightarrow> no_space a \<Longrightarrow>
     \<forall>w \<in> set (ws[i := a]). w \<noteq> [] \<and> no_space w"
  by (metis insert_iff set_update_subset_insert subsetD)

lemma render_words_join:
  assumes "ws \<noteq> []" "\<forall>w \<in> set ws. w \<noteq> [] \<and> no_space w"
  shows "render_words (join '' '' ws) = ws" "render_words (join '' '' (ws @ [[]])) = ws"
proof -
  note e = join_words_ends [OF assms]
  have t: "trim (join '' '' ws) = join '' '' ws"
    using e by (intro trim_id) simp
  then show "render_words (join '' '' ws) = ws"
    by (simp add: render_words_def split_ws_join words_wf [OF assms])
  have "trim (join '' '' ws @ '' '') = join '' '' ws"
    using e by (intro trim_trailing) (simp_all add: space_is_space)
  then show "render_words (join '' '' (ws @ [[]])) = ws"
    by (simp add: render_words_def join_snoc [OF assms(1)] split_ws_join words_wf [OF assms])
qed

lemma wf_tokens_no_space: "wf_tokens ws \<Longrightarrow> \<forall>w \<in> set ws. no_space w"
  by (induction ws rule: wf_tokens.induct) simp_all

lemma render_words_shape:
  assumes lead: "page = [] \<or> non_space (hd page)"
  shows "(page = [] \<and> split_ws page = [[]] \<and> render_words page = [[]])
       \<or> (render_words page \<noteq> [] \<and> (\<forall>w \<in> set (render_words page). w \<noteq> [] \<and> no_space w)
           \<and> (split_ws page = render_words page \<or> split_ws page = render_words page @ [[]]))"
proof (cases "trim page = []")
  case True
  from trim_decomp [OF lead] obtain gap where g: "page = trim page @ gap" "list_all is_space gap"
    by blast
  with True have "page = gap" by simp
  with g(2) lead have "page = []" by (cases page) auto
  then show ?thesis
    by (simp add: render_words_def trim_def split_ws_no_space no_space_def)
next
  case False
  from trim_decomp [OF lead] False obtain gap where g: "page = trim page @ gap" "list_all is_space gap"
    and ends: "non_space (hd (trim page))" "non_space (last (trim page))"
    by blast
  have ne: "\<forall>w \<in> set (render_words page). w \<noteq> []"
    unfolding render_words_def by (rule split_ws_words [OF False ends])
  have wf: "wf_tokens (render_words page)"
    unfolding render_words_def by (rule wf_tokens_split_ws)
  have nosp: "\<forall>w \<in> set (render_words page). no_space w"
    using wf by (rule wf_tokens_no_space)
  have nonempty: "render_words page \<noteq> []"
    using wf by auto
  have "split_ws page = render_words page \<or> split_ws page = render_words page @ [[]]"
  proof (cases "gap = []")
    case True
    with g(1) show ?thesis by (simp add: render_words_def)
  next
    case gne: False
    have "split_ws (trim page @ gap) = split_ws (trim page) @ [[]]"
      using g(2) gne ends(2) by (intro split_ws_trailing) simp_all
    with g(1) show ?thesis by (simp add: render_words_def)
  qed
  with ne nosp nonempty show ?thesis by blast
qed

lemma render_replace:
  assumes lead: "page = [] \<or> non_space (hd page)"
    and i: "i < length (render_words page)" and a: "a \<noteq> []" "no_space a"
  shows "i < length (split_ws page)"
    and "render_words (join '' '' ((split_ws page)[i := a])) = (render_words page)[i := a]"
proof -
  from render_words_shape [OF lead]
  consider (empty) "page = []" "split_ws page = [[]]" "render_words page = [[]]"
    | (same) "render_words page \<noteq> []" "\<forall>w \<in> set (render_words page). w \<noteq> [] \<and> no_space w"
        "split_ws page = render_words page"
    | (more) "render_words page \<noteq> []" "\<forall>w \<in> set (render_words page). w \<noteq> [] \<and> no_space w"
        "split_ws page = render_words page @ [[]]"
    by blast
  then have "i < length (split_ws page)
      \<and> render_words (join '' '' ((split_ws page)[i := a])) = (render_words page)[i := a]"
  proof cases
    case empty
    with i have "i = 0" by simp
    with empty a render_words_join(1) [of "[a]"] show ?thesis by simp
  next
    case same
    have ne: "(render_words page)[i := a] \<noteq> []" using same(1) by simp
    from render_words_join(1) [OF ne words_update [OF same(2) a]] i same(3)
    show ?thesis by simp
  next
    case more
    have ne: "(render_words page)[i := a] \<noteq> []" using more(1) by simp
    from render_words_join(2) [OF ne words_update [OF more(2) a]] i more(3)
    show ?thesis by (simp add: list_update_append)
  qed
  then show "i < length (split_ws page)"
    and "render_words (join '' '' ((split_ws page)[i := a])) = (render_words page)[i := a]"
    by simp_all
qed

lemma handleResumeReading_editedPages:
  "editedPages (handleResumeReading c s) = editedPages s"
  by (simp add: handleResumeReading_def handleStartReading_def split: option.splits)

text \<open>
  Claim C10. A confirmed intervention whose replacement contains no whitespace and whose
  word index is below the number of tokens of the current page replaces that page by
  its tokens joined with single spaces, with the token at the word index replaced: split
  again, the new page has the same number of tokens and every token but that one is as
  before; the other pages are unchanged. When the page has no leading whitespace the
  same holds for the words as the review pane shows them (split after trimming), whose
  indices the word index comes from.
\<close>

theorem confirmIntervention_one_token:
  assumes sel: "selectedWordData s = Some (word, i)"
    and rat: "rationaleText s \<noteq> []"
    and alt: "selectedAlt s \<noteq> []" "no_space (selectedAlt s)"
    and page: "array_get (editedPages s) (currentPage s) = Some page"
    and idx: "i < length (split_ws page)"
  shows "\<exists>s' page'. confirmIntervention now s = Inr s'
      \<and> editedPages s' = (editedPages s)[nat (currentPage s) := page']
      \<and> page' = join '' '' ((split_ws page)[i := selectedAlt s])
      \<and> split_ws page' = (split_ws page)[i := selectedAlt s]
      \<and> length (split_ws page') = length (split_ws page)
      \<and> split_ws page' ! i = selectedAlt s
      \<and> (\<forall>k < length (split_ws page). k \<noteq> i \<longrightarrow> split_ws page' ! k = split_ws page ! k)
      \<and> ((page = [] \<or> non_space (hd page)) \<and> i < length (render_words page) \<longrightarrow>
            render_words page' = (render_words page)[i := selectedAlt s]
          \<and> length (render_words page') = length (render_words page)
          \<and> render_words page' ! i = selectedAlt s
          \<and> (\<forall>k < length (render_words page). k \<noteq> i \<longrightarrow>
                render_words page' ! k = render_words page ! k))"
proof -
  define page' where "page' = join '' '' ((split_ws page)[i := selectedAlt s])"
  have set: "array_set (split_ws page) i (selectedAlt s) = (split_ws page)[i := selectedAlt s]"
    using idx by (simp add: array_set_def)
  obtain s' where res: "confirmIntervention now s = Inr s'"
    and pages: "editedPages s' = (editedPages s)[nat (currentPage s) := page']"
    using sel rat alt(1) page
    by (simp add: confirmIntervention_def Let_def set page'_def handleResumeReading_editedPages
        split: option.splits)
  have a: "split_ws page' = (split_ws page)[i := selectedAlt s]"
    unfolding page'_def by (rule split_ws_replace [OF idx alt])
  have c: "length (split_ws page') = length (split_ws page)"
    by (simp add: a)
  have d: "split_ws page' ! i = selectedAlt s"
    using idx by (simp add: a)
  have e: "\<forall>k < length (split_ws page). k \<noteq> i \<longrightarrow> split_ws page' ! k = split_ws page ! k"
    by (simp add: a)
  have f: "(page = [] \<or> non_space (hd page)) \<and> i < length (render_words page) \<longrightarrow>
            render_words page' = (render_words page)[i := selectedAlt s]
          \<and> length (render_words page') = length (render_words page)
          \<and> render_words page' ! i = selectedAlt s
          \<and> (\<forall>k < length (render_words page). k \<noteq> i \<longrightarrow>
                render_words page' ! k = render_words page ! k)"
  proof (intro impI)
    assume h: "(page = [] \<or> non_space (hd page)) \<and> i < length (render_words page)"
    then have lead: "page = [] \<or> non_space (hd page)" and ri: "i < length (render_words page)"
      by blast+
    have b: "render_words page' = (render_words page)[i := selectedAlt s]"
      unfolding page'_def by (rule render_replace(2) [OF lead ri alt])
    show "render_words page' = (render_words page)[i := selectedAlt s]
          \<and> length (render_words page') = length (render_words page)
          \<and> render_words page' ! i = selectedAlt s
          \<and> (\<forall>k < length (render_words page). k \<noteq> i \<longrightarrow>
                render_words page' ! k = render_words page ! k)"
      using ri by (simp add: b)
  qed
  show ?thesis
    by (intro exI [of _ s'] exI [of _ page'] conjI) (rule res pages page'_def a c d e f)+
qed

theorem confirmIntervention_one_token_witness:
  "\<exists>s'. confirmIntervention 7 demo_review = Inr s'
     \<and> render_words ''alfa  beta gama'' = [''alfa'', ''beta'', ''gama'']
     \<and> editedPages s' = [''alfa delta gama'']
     \<and> render_words (editedPages s' ! 0) = [''alfa'', ''delta'', ''gama'']"
proof -
  have h1: "selectedWordData demo_review = Some (''beta'', 1)"
    and h2: "rationaleText demo_review \<noteq> []"
    and h3: "selectedAlt demo_review \<noteq> []" "no_space (selectedAlt demo_review)"
    and h4: "array_get (editedPages demo_review) (currentPage demo_review) = Some ''alfa  beta gama''"
    and h5: "''alfa  beta gama'' = [] \<or> non_space (hd ''alfa  beta gama'')"
    by (simp_all add: demo_review_def initial_def array_get_def no_space_def is_space_def)
  have rw: "render_words ''alfa  beta gama'' = [''alfa'', ''beta'', ''gama'']"
    by code_simp
  have sw: "split_ws ''alfa  beta gama'' = [''alfa'', ''beta'', ''gama'']"
    by code_simp
  have h6: "1 < length (split_ws ''alfa  beta gama'')"
    by (simp add: sw)
  have h7: "1 < length (render_words ''alfa  beta gama'')"
    by (simp add: rw)
  have v: "selectedAlt demo_review = ''delta''" "editedPages demo_review = [''alfa  beta gama'']"
    "currentPage demo_review = 0"
    by (simp_all add: demo_review_def initial_def)
  from confirmIntervention_one_token [OF h1 h2 h3 h4 h6, of 7]
  obtain s' page' where a: "confirmIntervention 7 demo_review = Inr s'"
    and b: "editedPages s' = (editedPages demo_review)[nat (currentPage demo_review) := page']"
    and c: "page' = join '' '' ((split_ws ''alfa  beta gama'')[1 := selectedAlt demo_review])"
    and d': "(''alfa  beta gama'' = [] \<or> non_space (hd ''alfa  beta gama''))
          \<and> 1 < length (render_words ''alfa  beta gama'') \<longrightarrow>
        render_words page' = (render_words ''alfa  beta gama'')[1 := selectedAlt demo_review]
          \<and> length (render_words page') = length (render_words ''alfa  beta gama'')
          \<and> render_words page' ! 1 = selectedAlt demo_review
          \<and> (\<forall>k < length (render_words ''alfa  beta gama''). k \<noteq> 1 \<longrightarrow>
                render_words page' ! k = render_words ''alfa  beta gama'' ! k)"
    by blast
  from d' h5 h7
  have d: "render_words page' = (render_words ''alfa  beta gama'')[1 := selectedAlt demo_review]"
    by blast
  have p: "page' = ''alfa delta gama''"
    by (simp add: c sw v)
  have e: "editedPages s' = [''alfa delta gama'']"
    by (simp add: b v p)
  have f: "render_words (editedPages s' ! 0) = [''alfa'', ''delta'', ''gama'']"
    using d by (simp add: e p [symmetric] rw v)
  show ?thesis
    by (intro exI [of _ s'] conjI) (rule a rw e f)+
qed

end
